theory Spec2Isabelle
  imports Main "HOL-Library.List_Lexorder" "HOL-Library.Char_ord"
begin

section \<open>Helper functions of the fault injection framework (helpers.py)\<close>

text \<open>
  The module works on a networkx \<open>DiGraph\<close> whose nodes carry, under the attribute key
  \<open>"node"\<close>, a reference to a \<open>Node\<close> object. \<open>rename_nodes\<close> assigns to a field of these
  objects in place, so the objects live in an explicit heap and the attribute dictionaries
  hold addresses: two graph nodes may hold the same address, as two Python dictionaries may
  hold the same object.
\<close>

subsection \<open>Data model\<close>

text \<open>\<open>class Node\<close> and \<open>class Port\<close>: plain attribute holders. The fields the module never
  looks into (\<open>inputs\<close>, \<open>outputs\<close>, \<open>stage\<close>, \<open>node_color\<close>, \<open>pins\<close>) are kept as strings
  and string lists; the field \<open>length\<close> of \<open>Port\<close> is written \<open>length'\<close>.\<close>

record Node =
  name :: string
  parent_name :: string
  type :: string
  inputs :: "string list"
  outputs :: "string list"
  stage :: string
  node_color :: string

record Port =
  name :: string
  pins :: "string list"
  type :: string
  length' :: nat

type_synonym addr = nat

type_synonym heap = "addr \<Rightarrow> Node"

text \<open>The attribute dictionary of one graph node: the entry under the key \<open>"node"\<close> (absent
  or the address of a \<open>Node\<close> object) and the entries under every other key.\<close>

record node_attribute =
  node :: "addr option"
  attrs :: "string \<rightharpoonup> string"

type_synonym edge_attribute = "string \<rightharpoonup> string"

text \<open>The exceptions that leave the functions. An \<open>OSError\<close> carries its error number;
  \<open>FileNotFoundError\<close> and \<open>PermissionError\<close> are the \<open>OSError\<close>s with the numbers \<open>ENOENT\<close>
  and \<open>EACCES\<close>. The numbers are those of Linux.\<close>

datatype error =
    KeyError string
  | ArgumentTypeError string
  | OSError nat
  | ValueError
  | UnicodeDecodeError
  | DistributionNotFound string

definition ENOENT :: nat where
  "ENOENT = 2"

definition EBADF :: nat where
  "EBADF = 9"

definition EACCES :: nat where
  "EACCES = 13"

definition ENOTDIR :: nat where
  "ENOTDIR = 20"

definition ENAMETOOLONG :: nat where
  "ENAMETOOLONG = 36"

definition ELOOP :: nat where
  "ELOOP = 40"

subsection \<open>Python dictionaries in insertion order\<close>

text \<open>A \<open>dict\<close> whose iteration order matters is a list of key-value pairs with distinct
  keys. \<open>d[k] = v\<close> overwrites the value of a key that is present, where it stands, and
  appends a new key at the end.\<close>

fun setitem :: "'k \<Rightarrow> 'v \<Rightarrow> ('k \<times> 'v) list \<Rightarrow> ('k \<times> 'v) list" where
  "setitem k v [] = [(k, v)]"
| "setitem k v ((k', v') # d) = (if k' = k then (k, v) # d else (k', v') # setitem k v d)"

text \<open>\<open>d.update(pairs)\<close>: one \<open>d[k] = v\<close> for each pair, in order.\<close>

fun update_from :: "('k \<times> 'v) list \<Rightarrow> ('k \<times> 'v) list \<Rightarrow> ('k \<times> 'v) list" where
  "update_from [] d = d"
| "update_from ((k, v) # kvs) d = update_from kvs (setitem k v d)"

text \<open>\<open>k in d\<close>.\<close>

definition contains :: "('k \<times> 'v) list \<Rightarrow> 'k \<Rightarrow> bool" where
  "contains d k = (map_of d k \<noteq> None)"

subsection \<open>The networkx DiGraph\<close>

text \<open>
  A \<open>DiGraph\<close> stores two insertion-ordered dictionaries: \<open>_node\<close>, from a node key to its
  attribute dictionary, and \<open>_adj\<close> (also called \<open>_succ\<close>), from a node key to the dictionary
  of its successors, each with the attribute dictionary of the edge. (The predecessor
  dictionary \<open>_pred\<close> mirrors \<open>_adj\<close> and the graph's own attribute dictionary is copied
  as it is; neither is read by this module and both are left out.) Node keys are strings:
  \<open>rename_nodes\<close> computes \<open>node + suffix\<close>.
\<close>

record DiGraph =
  G_node :: "(string \<times> node_attribute) list"
  G_adj :: "(string \<times> (string \<times> edge_attribute) list) list"

text \<open>\<open>G.nodes(data=True)\<close> and \<open>G.nodes().values()\<close> iterate \<open>_node\<close>;
  \<open>G.edges(data=True)\<close> iterates \<open>_adj\<close>, source by source.\<close>

definition edges :: "DiGraph \<Rightarrow> (string \<times> string \<times> edge_attribute) list" where
  "edges G = concat (map (\<lambda>(u, nbrs). map (\<lambda>(v, d). (u, v, d)) nbrs) (G_adj G))"

text \<open>The invariant of the data structure, which every \<open>DiGraph\<close> built through the
  interface of networkx has: the keys of a dictionary are distinct, \<open>_adj\<close> has the keys of
  \<open>_node\<close> in the same order, and every successor is a node. A graph with the invariant is
  called well-formed.\<close>

definition wf_graph :: "DiGraph \<Rightarrow> bool" where
  "wf_graph G \<longleftrightarrow>
     distinct (map fst (G_node G)) \<and>
     map fst (G_adj G) = map fst (G_node G) \<and>
     list_all (\<lambda>(u, nbrs). distinct (map fst nbrs) \<and>
                 list_all (\<lambda>(v, d). v \<in> set (map fst (G_node G))) nbrs) (G_adj G)"

definition empty_attribute :: node_attribute where
  "empty_attribute = \<lparr>node = None, attrs = Map.empty\<rparr>"

text \<open>\<open>add_node(n)\<close> without attributes: a new key gets empty dictionaries, a key that is
  present is left as it is.\<close>

definition add_node :: "string \<Rightarrow> DiGraph \<Rightarrow> DiGraph" where
  "add_node n H =
     (if \<not> contains (G_adj H) n
      then H\<lparr>G_adj := setitem n [] (G_adj H), G_node := setitem n empty_attribute (G_node H)\<rparr>
      else H)"

fun add_nodes_from :: "string list \<Rightarrow> DiGraph \<Rightarrow> DiGraph" where
  "add_nodes_from [] H = H"
| "add_nodes_from (n # ns) H = add_nodes_from ns (add_node n H)"

text \<open>\<open>add_edge\<close> for one triple \<open>(u, v, dd)\<close>: both ends are added when missing, the
  attribute dictionary of an edge that is present is updated with \<open>dd\<close>, a new edge starts
  from the empty dictionary.\<close>

definition add_edge :: "string \<times> string \<times> edge_attribute \<Rightarrow> DiGraph \<Rightarrow> DiGraph" where
  "add_edge e H =
     (case e of (u, v, dd) \<Rightarrow>
        let H' = add_node v (add_node u H);
            nbrs = (case map_of (G_adj H') u of Some nbrs \<Rightarrow> nbrs | None \<Rightarrow> []);
            datadict = (case map_of nbrs v of Some d \<Rightarrow> d | None \<Rightarrow> Map.empty)
        in H'\<lparr>G_adj := setitem u (setitem v (datadict ++ dd) nbrs) (G_adj H')\<rparr>)"

fun add_edges_from :: "(string \<times> string \<times> edge_attribute) list \<Rightarrow> DiGraph \<Rightarrow> DiGraph" where
  "add_edges_from [] H = H"
| "add_edges_from (e # es) H = add_edges_from es (add_edge e H)"

text \<open>
  \<open>relabel_nodes(G, mapping)\<close> with the default \<open>copy=True\<close> builds a new graph:
  \<^verbatim>\<open>
  H = G.__class__()
  H.add_nodes_from(mapping.get(n, n) for n in G)
  H._node.update((mapping.get(n, n), d.copy()) for n, d in G.nodes.items())
  new_edges = [(mapping.get(n1, n1), mapping.get(n2, n2), d.copy())
               for (n1, n2, d) in G.edges(data=True)]
  H.add_edges_from(new_edges)
  \<close>
  The copies are shallow: the new attribute dictionary holds the same \<open>Node\<close> object.
\<close>

definition mapping_get :: "(string \<rightharpoonup> string) \<Rightarrow> string \<Rightarrow> string" where
  "mapping_get mapping n = (case mapping n of Some n' \<Rightarrow> n' | None \<Rightarrow> n)"

definition relabel_nodes :: "DiGraph \<Rightarrow> (string \<rightharpoonup> string) \<Rightarrow> DiGraph" where
  "relabel_nodes G mapping =
     (let H = add_nodes_from (map (\<lambda>(n, d). mapping_get mapping n) (G_node G))
                \<lparr>G_node = [], G_adj = []\<rparr>;
          H = H\<lparr>G_node := update_from (map (\<lambda>(n, d). (mapping_get mapping n, d)) (G_node G))
                              (G_node H)\<rparr>;
          new_edges = map (\<lambda>(n1, n2, d). (mapping_get mapping n1, mapping_get mapping n2, d))
                        (edges G)
      in add_edges_from new_edges H)"

subsection \<open>rename_nodes\<close>

text \<open>The state the functions run in: the graph passed to them and the heap of \<open>Node\<close>
  objects.\<close>

record world =
  graph :: DiGraph
  heap :: heap

text \<open>\<open>node_attribute["node"]\<close> raises \<open>KeyError\<close> when the key is absent.\<close>

definition getitem_node :: "node_attribute \<Rightarrow> error + addr" where
  "getitem_node node_attribute =
     (case node node_attribute of None \<Rightarrow> Inl (KeyError ''node'') | Some a \<Rightarrow> Inr a)"

text \<open>\<open>obj.name = obj.name + suffix\<close> on the object at address \<open>a\<close>.\<close>

definition append_name :: "addr \<Rightarrow> string \<Rightarrow> heap \<Rightarrow> heap" where
  "append_name a suffix h = h(a := (h a)\<lparr>Node.name := Node.name (h a) @ suffix\<rparr>)"

text \<open>The loop over \<open>graph.nodes(data=True)\<close>, the loop variable \<open>node\<close> written \<open>n\<close>. An exception leaves the loop with the heap
  as it is at that point: the objects renamed so far stay renamed.\<close>

fun rename_loop ::
  "string \<Rightarrow> bool \<Rightarrow> (string \<times> node_attribute) list \<Rightarrow> (string \<rightharpoonup> string) \<Rightarrow> heap
     \<Rightarrow> (error + (string \<rightharpoonup> string)) \<times> heap" where
  "rename_loop suffix ignore_inputs [] name_mapping h = (Inr name_mapping, h)"
| "rename_loop suffix ignore_inputs ((n, node_attribute) # rest) name_mapping h =
     (if ignore_inputs then
        (case getitem_node node_attribute of
           Inl e \<Rightarrow> (Inl e, h)
         | Inr a \<Rightarrow>
             if Node.type (h a) \<noteq> ''input''
             then rename_loop suffix ignore_inputs rest
                    (name_mapping(n \<mapsto> n @ suffix)) (append_name a suffix h)
             else rename_loop suffix ignore_inputs rest name_mapping h)
      else
        (case getitem_node node_attribute of
           Inl e \<Rightarrow> (Inl e, h)
         | Inr a \<Rightarrow>
             rename_loop suffix ignore_inputs rest
               (name_mapping(n \<mapsto> n @ suffix)) (append_name a suffix h)))"

text \<open>\<open>rename_nodes(graph, suffix, ignore_inputs)\<close> returns the relabelled copy; the graph
  it was given keeps its keys, and shares the renamed \<open>Node\<close> objects.\<close>

definition rename_nodes :: "world \<Rightarrow> string \<Rightarrow> bool \<Rightarrow> (error + DiGraph) \<times> world" where
  "rename_nodes w suffix ignore_inputs =
     (case rename_loop suffix ignore_inputs (G_node (graph w)) Map.empty (heap w) of
        (Inl e, h) \<Rightarrow> (Inl e, w\<lparr>heap := h\<rparr>)
      | (Inr name_mapping, h) \<Rightarrow> (Inr (relabel_nodes (graph w) name_mapping), w\<lparr>heap := h\<rparr>))"

subsection \<open>Log output\<close>

text \<open>\<open>header = "-" * int(TERMINAL_COLS)\<close> is computed once when the module is loaded, from
  the width of the terminal; the width is a parameter here. A call \<open>logger.info(msg)\<close>
  emits one line; a function that logs returns the lines it emits, in order.\<close>

definition header :: "nat \<Rightarrow> string" where
  "header TERMINAL_COLS = replicate TERMINAL_COLS CHR ''-''"

text \<open>\<open>str(n)\<close> for a count: the decimal digits.\<close>

fun str_nat :: "nat \<Rightarrow> string" where
  "str_nat n =
     (if n < 10 then [char_of (48 + n)]
      else str_nat (n div 10) @ [char_of (48 + n mod 10)])"

declare str_nat.simps [simp del]

subsection \<open>print_graph_stat\<close>

text \<open>
  \<open>np.unique(gates, return_counts=True)\<close> first turns the list into an array
  (\<open>np.asanyarray\<close>). For a list of strings that is an array of strings of one fixed width,
  padded with NUL characters, and an element read from such an array has lost the NUL
  characters at its end: \<open>A\<close> followed by a NUL character is stored, compared and given
  back as \<open>A\<close>. The
  function then returns the sorted distinct elements of the array and, for each of them,
  how often it occurs in the array. numpy orders strings as Python does, character by
  character.
\<close>

definition rstrip_nul :: "string \<Rightarrow> string" where
  "rstrip_nul s = rev (dropWhile (\<lambda>c. c = CHR 0x00) (rev s))"

definition asanyarray :: "string list \<Rightarrow> string list" where
  "asanyarray xs = map rstrip_nul xs"

definition np_unique :: "string list \<Rightarrow> string list \<times> nat list" where
  "np_unique ar =
     (let ar = asanyarray ar;
          u = sort (remdups ar)
      in (u, map (count_list ar) u))"

text \<open>The loop over \<open>graph.nodes().values()\<close>; the subscript \<open>node["node"]\<close> is guarded by
  \<open>"node" in node\<close>. The loop variable \<open>node\<close> is written \<open>nd\<close>.\<close>

fun collect_gates :: "heap \<Rightarrow> node_attribute list \<Rightarrow> string list \<Rightarrow> error + string list" where
  "collect_gates h [] gates = Inr gates"
| "collect_gates h (nd # rest) gates =
     (if node nd \<noteq> None then
        (case getitem_node nd of
           Inl e \<Rightarrow> Inl e
         | Inr a \<Rightarrow> collect_gates h rest (gates @ [Node.type (h a)]))
      else collect_gates h rest gates)"

definition print_graph_stat :: "nat \<Rightarrow> world \<Rightarrow> (error + string list) \<times> world" where
  "print_graph_stat TERMINAL_COLS w =
     (case collect_gates (heap w) (map snd (G_node (graph w))) [] of
        Inl e \<Rightarrow> (Inl e, w)
      | Inr gates \<Rightarrow>
          (case np_unique gates of
             (gates, number) \<Rightarrow>
               (Inr (map (\<lambda>cnt. gates ! cnt @ '': '' @ str_nat (number ! cnt))
                       [0..<length gates]
                     @ [header TERMINAL_COLS]), w)))"

subsection \<open>get_registers\<close>

text \<open>\<open>nangate45_cell_library.registers\<close> is a table of the cell library, not part of
  this module: the functions take it as the parameter \<open>registers\<close> and only test
  membership. The list the function builds is written \<open>acc\<close>.\<close>

fun get_registers_loop ::
  "string set \<Rightarrow> heap \<Rightarrow> node_attribute list \<Rightarrow> node_attribute list
     \<Rightarrow> error + node_attribute list" where
  "get_registers_loop registers h [] acc = Inr acc"
| "get_registers_loop registers h (nd # rest) acc =
     (if node nd \<noteq> None then
        (case getitem_node nd of
           Inl e \<Rightarrow> Inl e
         | Inr a \<Rightarrow>
             if Node.type (h a) \<in> registers
             then get_registers_loop registers h rest (acc @ [nd])
             else get_registers_loop registers h rest acc)
      else get_registers_loop registers h rest acc)"

definition get_registers :: "string set \<Rightarrow> world \<Rightarrow> (error + node_attribute list) \<times> world" where
  "get_registers registers w =
     (get_registers_loop registers (heap w) (map snd (G_node (graph w))) [], w)"

subsection \<open>print_ports\<close>

text \<open>\<open>ports.items()\<close> in insertion order is a list of pairs.\<close>

fun print_ports_loop :: "(string \<times> Port) list \<Rightarrow> string \<Rightarrow> string \<Rightarrow> string \<times> string" where
  "print_ports_loop [] in_string out_string = (in_string, out_string)"
| "print_ports_loop ((port_name, port) # rest) in_string out_string =
     (if Port.type port = ''input''
      then print_ports_loop rest (in_string @ port_name @ '' '') out_string
      else print_ports_loop rest in_string (out_string @ port_name @ '' ''))"

definition print_ports :: "nat \<Rightarrow> (string \<times> Port) list \<Rightarrow> string list" where
  "print_ports TERMINAL_COLS ports =
     (case print_ports_loop ports ''Inputs:  '' ''Outputs: '' of
        (in_string, out_string) \<Rightarrow>
          [header TERMINAL_COLS, in_string, out_string, header TERMINAL_COLS])"

subsection \<open>Paths and the file system\<close>

text \<open>
  \<open>Path(s)\<close> on a POSIX system parses the string: the root is \<open>"/"\<close> for a string that
  starts with one slash or with three and more, \<open>"//"\<close> for exactly two, and empty
  otherwise; the rest is split at the slashes, and empty components and \<open>"."\<close> are dropped.
  \<open>str(path)\<close> joins the components again, and is \<open>"."\<close> for the empty path. \<open>path.parent\<close>
  drops the last component, and is the path itself when there is none.
\<close>

record Path =
  root :: string
  names :: "string list"

fun split_sep :: "char \<Rightarrow> string \<Rightarrow> string list" where
  "split_sep c [] = [[]]"
| "split_sep c (x # xs) =
     (if x = c then [] # split_sep c xs
      else (case split_sep c xs of [] \<Rightarrow> [[x]] | p # ps \<Rightarrow> (x # p) # ps))"

fun join :: "string \<Rightarrow> string list \<Rightarrow> string" where
  "join sep [] = []"
| "join sep [x] = x"
| "join sep (x # y # ys) = x @ sep @ join sep (y # ys)"

definition Path_of :: "string \<Rightarrow> Path" where
  "Path_of s =
     (let stripped = dropWhile (\<lambda>c. c = CHR ''/'') s;
          n = length s - length stripped
      in \<lparr>root = (if n = 0 then [] else if n = 2 then ''//'' else ''/''),
          names = filter (\<lambda>x. x \<noteq> [] \<and> x \<noteq> ''.'') (split_sep CHR ''/'' stripped)\<rparr>)"

definition str_path :: "Path \<Rightarrow> string" where
  "str_path p = (let s = root p @ join ''/'' (names p) in if s = [] then ''.'' else s)"

definition parent :: "Path \<Rightarrow> Path" where
  "parent p = (if names p = [] then p else p\<lparr>names := butlast (names p)\<rparr>)"

text \<open>\<open>path.is_absolute()\<close>: a POSIX path is absolute when it has a root. What
  \<open>path.resolve()\<close> gives is absolute.\<close>

definition is_absolute :: "Path \<Rightarrow> bool" where
  "is_absolute p = (root p \<noteq> [])"

text \<open>
  The file system is a parameter: it is the system call behind \<open>path.stat()\<close>, which
  gives, for a path, the kind of file that the path leads to, symbolic links followed, or
  raises: an \<open>OSError\<close> with the error number of the system, or \<open>ValueError\<close> for a string
  that cannot be handed to the system (one with a NUL character in it).

  \<open>path.is_file()\<close> and \<open>path.exists()\<close> (pathlib, as of Python 3.11) call \<open>stat\<close> and
  catch what it raises:
  \<^verbatim>\<open>
  _IGNORED_ERRNOS = (ENOENT, ENOTDIR, EBADF, ELOOP)
  def _ignore_error(exception):
      return (getattr(exception, 'errno', None) in _IGNORED_ERRNOS or ...)
  def is_file(self):
      try:
          return S_ISREG(self.stat().st_mode)
      except OSError as e:
          if not _ignore_error(e):
              raise
          return False
      except ValueError:
          return False
  def exists(self):
      try:
          self.stat()
      except OSError as e:
          if not _ignore_error(e):
              raise
          return False
      except ValueError:
          return False
      return True
  \<close>
  An \<open>OSError\<close> with another error number (\<open>EACCES\<close> for a directory that may not be
  searched, \<open>ENAMETOOLONG\<close> for a name that is too long) leaves both functions.
\<close>

datatype file_kind = RegularFile | Directory | OtherFile

type_synonym filesystem = "Path \<Rightarrow> error + file_kind"

definition stat :: "filesystem \<Rightarrow> Path \<Rightarrow> error + file_kind" where
  "stat fs p = fs p"

definition ignore_error :: "error \<Rightarrow> bool" where
  "ignore_error exception =
     (case exception of
        OSError errno \<Rightarrow> errno \<in> set [ENOENT, ENOTDIR, EBADF, ELOOP]
      | _ \<Rightarrow> False)"

definition is_file :: "filesystem \<Rightarrow> Path \<Rightarrow> error + bool" where
  "is_file fs p =
     (case stat fs p of
        Inr kind \<Rightarrow> Inr (kind = RegularFile)
      | Inl (OSError errno) \<Rightarrow>
          if \<not> ignore_error (OSError errno) then Inl (OSError errno) else Inr False
      | Inl ValueError \<Rightarrow> Inr False
      | Inl e \<Rightarrow> Inl e)"

definition path_exists :: "filesystem \<Rightarrow> Path \<Rightarrow> error + bool" where
  "path_exists fs p =
     (case stat fs p of
        Inr kind \<Rightarrow> Inr True
      | Inl (OSError errno) \<Rightarrow>
          if \<not> ignore_error (OSError errno) then Inl (OSError errno) else Inr False
      | Inl ValueError \<Rightarrow> Inr False
      | Inl e \<Rightarrow> Inl e)"

text \<open>The two validators; an exception of \<open>is_file\<close> or \<open>exists\<close> leaves them as it is.\<close>

definition ap_check_file_exists :: "filesystem \<Rightarrow> string \<Rightarrow> error + Path" where
  "ap_check_file_exists fs file_path =
     (let path = Path_of file_path
      in case is_file fs path of
           Inl e \<Rightarrow> Inl e
         | Inr b \<Rightarrow>
             if \<not> b
             then Inl (ArgumentTypeError (''File '' @ str_path path @ '' does not exist''))
             else Inr path)"

definition ap_check_dir_exists :: "filesystem \<Rightarrow> string \<Rightarrow> error + Path" where
  "ap_check_dir_exists fs path_string =
     (let path = Path_of path_string
      in case path_exists fs (parent path) of
           Inl e \<Rightarrow> Inl e
         | Inr b \<Rightarrow>
             if \<not> b
             then Inl (ArgumentTypeError
                         (''Path '' @ str_path (parent path) @ '' does not exist''))
             else Inr path)"

subsection \<open>show_and_exit\<close>

text \<open>
  What the function asks of the process and the system is a parameter: \<open>resolve\<close> makes a
  path absolute, \<open>chdir\<close> changes the working directory or raises, \<open>run_git\<close> is
  \<open>subprocess.run(["git", "describe", ...], stdout=PIPE)\<close> in that directory, which raises
  when the program cannot be started and otherwise gives the bytes written to standard
  output, whatever the exit status of git, and \<open>require_version\<close> is
  \<open>pkg_resources.require(p)[0].version\<close>, which raises for a package that is not installed.
  A call ends in one of three ways: it returns, it raises, or it ends the process with
  \<open>exit(status)\<close>. The function gives the lines written to \<open>sys.stderr\<close> and how it ended.
\<close>

record environment =
  resolve :: "Path \<Rightarrow> Path"
  chdir :: "Path \<Rightarrow> error option"
  run_git :: "Path \<Rightarrow> error + string"
  require_version :: "string \<Rightarrow> error + string"

datatype outcome = Return | Raise error | Exit int

text \<open>\<open>bytes.strip()\<close> removes the ASCII whitespace at both ends; \<open>decode('ascii')\<close> raises
  on a byte above 127.\<close>

definition is_space :: "char \<Rightarrow> bool" where
  "is_space c \<longleftrightarrow> c \<in> set [CHR '' '', CHR 0x09, CHR 0x0A, CHR 0x0B, CHR 0x0C, CHR 0x0D]"

definition strip :: "string \<Rightarrow> string" where
  "strip s = rev (dropWhile is_space (rev (dropWhile is_space s)))"

definition decode_ascii :: "string \<Rightarrow> error + string" where
  "decode_ascii s =
     (if list_all (\<lambda>c. (of_char c :: nat) < 128) s then Inr s else Inl UnicodeDecodeError)"

text \<open>The loop over \<open>packages\<close>, followed by \<open>exit(0)\<close>; \<open>err\<close> is what has been written to
  \<open>sys.stderr\<close> so far.\<close>

fun write_packages :: "environment \<Rightarrow> string list \<Rightarrow> string list \<Rightarrow> string list \<times> outcome" where
  "write_packages env [] err = (err, Exit 0)"
| "write_packages env (p # packages) err =
     (case require_version env p of
        Inl e \<Rightarrow> (err, Raise e)
      | Inr version \<Rightarrow> write_packages env packages (err @ [p @ '' '' @ version @ [CHR 0x0A]]))"

definition show_and_exit :: "environment \<Rightarrow> string \<Rightarrow> string list \<Rightarrow> string list \<times> outcome" where
  "show_and_exit env clitool packages =
     (let util_path = parent (resolve env (Path_of clitool))
      in case chdir env util_path of
           Some e \<Rightarrow> ([], Raise e)
         | None \<Rightarrow>
             (case run_git env util_path of
                Inl e \<Rightarrow> ([], Raise e)
              | Inr stdout \<Rightarrow>
                  (case decode_ascii (strip stdout) of
                     Inl e \<Rightarrow> ([], Raise e)
                   | Inr ver \<Rightarrow>
                       let ver = (if ver = [] then ''not found (not in Git repository?)''
                                  else ver)
                       in write_packages env packages
                            [clitool @ '' Git version '' @ ver @ [CHR 0x0A]])))"

subsection \<open>Notions used in the statements\<close>

text \<open>A node is an input node when its record has the type \<open>"input"\<close>; \<open>key_after\<close> is the
  key a node has after renaming, \<open>relabel_key\<close> the same as a function of the old key.\<close>

definition is_input :: "heap \<Rightarrow> node_attribute \<Rightarrow> bool" where
  "is_input h nd = (case node nd of Some a \<Rightarrow> Node.type (h a) = ''input'' | None \<Rightarrow> False)"

definition key_after :: "string \<Rightarrow> bool \<Rightarrow> heap \<Rightarrow> string \<times> node_attribute \<Rightarrow> string" where
  "key_after suffix ignore_inputs h =
     (\<lambda>(k, nd). if ignore_inputs \<and> is_input h nd then k else k @ suffix)"

definition relabel_key :: "world \<Rightarrow> string \<Rightarrow> bool \<Rightarrow> string \<Rightarrow> string" where
  "relabel_key w suffix ignore_inputs k =
     (case map_of (G_node (graph w)) k of
        Some nd \<Rightarrow> key_after suffix ignore_inputs (heap w) (k, nd)
      | None \<Rightarrow> k)"

definition carries_record :: "world \<Rightarrow> bool" where
  "carries_record w = list_all (\<lambda>(k, nd). node nd \<noteq> None) (G_node (graph w))"

definition no_shared_record :: "world \<Rightarrow> bool" where
  "no_shared_record w = distinct (map (\<lambda>(k, nd). node nd) (G_node (graph w)))"

definition keys_after_distinct :: "world \<Rightarrow> string \<Rightarrow> bool \<Rightarrow> bool" where
  "keys_after_distinct w suffix ignore_inputs =
     distinct (map (key_after suffix ignore_inputs (heap w)) (G_node (graph w)))"

text \<open>Rename selectivity, as the specification words it: the call returns a graph with the
  nodes of the given graph, in order, each with its attribute dictionary, an input node
  under its old key when inputs are ignored and every other node under its old key followed
  by the suffix; and the name of a node's record is left as it was in the first case
  and is the old name followed by the suffix in the second.\<close>

definition rename_selective :: "world \<Rightarrow> string \<Rightarrow> bool \<Rightarrow> bool" where
  "rename_selective w suffix ignore_inputs =
     (case rename_nodes w suffix ignore_inputs of
        (Inl e, w') \<Rightarrow> False
      | (Inr H, w') \<Rightarrow>
          G_node H = map (\<lambda>(k, nd). (key_after suffix ignore_inputs (heap w) (k, nd), nd))
                       (G_node (graph w)) \<and>
          list_all (\<lambda>(k, nd).
              case node nd of
                None \<Rightarrow> False
              | Some a \<Rightarrow>
                  Node.name (heap w' a) =
                    (if ignore_inputs \<and> is_input (heap w) nd then Node.name (heap w a)
                     else Node.name (heap w a) @ suffix))
            (G_node (graph w)))"



text \<open>Key and name in lockstep: every node carries a record whose name is the node's key.\<close>

definition lockstep :: "DiGraph \<Rightarrow> heap \<Rightarrow> bool" where
  "lockstep G h =
     list_all (\<lambda>(k, nd). case node nd of None \<Rightarrow> False | Some a \<Rightarrow> Node.name (h a) = k)
       (G_node G)"

text \<open>A node qualifies as a register when it carries a record whose type is in the table.\<close>

definition is_register :: "string set \<Rightarrow> heap \<Rightarrow> node_attribute \<Rightarrow> bool" where
  "is_register registers h nd =
     (case node nd of Some a \<Rightarrow> Node.type (h a) \<in> registers | None \<Rightarrow> False)"

text \<open>The types of the nodes that carry a record, in iteration order.\<close>

definition record_types :: "world \<Rightarrow> string list" where
  "record_types w =
     concat (map (\<lambda>(k, nd). case node nd of Some a \<Rightarrow> [Node.type (heap w a)] | None \<Rightarrow> [])
               (G_node (graph w)))"

text \<open>The world without the nodes that carry no record.\<close>

definition without_recordless :: "world \<Rightarrow> world" where
  "without_recordless w =
     w\<lparr>graph := (graph w)\<lparr>G_node := filter (\<lambda>(k, nd). node nd \<noteq> None) (G_node (graph w))\<rparr>\<rparr>"

subsection \<open>Concrete inputs\<close>

text \<open>A record with a name and a type, and an attribute dictionary that holds only the
  record at an address.\<close>

definition mk_node :: "string \<Rightarrow> string \<Rightarrow> Node" where
  "mk_node n t = \<lparr>Node.name = n, parent_name = [], type = t, inputs = [], outputs = [],
                  stage = [], node_color = []\<rparr>"

definition nd_of :: "addr \<Rightarrow> node_attribute" where
  "nd_of a = \<lparr>node = Some a, attrs = Map.empty\<rparr>"

text \<open>The graph of the statistics example: four nodes of the types \<open>AND2\<close>, \<open>AND2\<close>,
  \<open>DFF\<close>, \<open>OR2\<close>, and a fifth node that carries no record.\<close>

definition stat_world :: world where
  "stat_world =
     \<lparr>graph = \<lparr>G_node = [(''g0'', nd_of 0), (''g1'', nd_of 1), (''r0'', nd_of 2),
                         (''p'', empty_attribute), (''g2'', nd_of 3)],
               G_adj = [(''g0'', [(''r0'', Map.empty)]), (''g1'', [(''r0'', Map.empty)]),
                        (''r0'', [(''g2'', Map.empty)]), (''p'', []), (''g2'', [])]\<rparr>,
      heap = (\<lambda>a. if a = 2 then mk_node ''r0'' ''DFF''
                   else if a = 3 then mk_node ''g2'' ''OR2''
                   else if a = 1 then mk_node ''g1'' ''AND2''
                   else mk_node ''g0'' ''AND2'')\<rparr>"

text \<open>The graph of two nodes whose types differ only by a NUL character at the end.\<close>

definition nul_world :: world where
  "nul_world =
     \<lparr>graph = \<lparr>G_node = [(''g0'', nd_of 0), (''g1'', nd_of 1)],
               G_adj = [(''g0'', []), (''g1'', [])]\<rparr>,
      heap = (\<lambda>a. if a = 0 then mk_node ''g0'' (''A'' @ [CHR 0x00]) else mk_node ''g1'' ''A'')\<rparr>"

text \<open>A file system without any file, and one with the directories \<open>/\<close>, \<open>/tmp\<close>,
  \<open>/tmp/existing_dir\<close>, \<open>/private\<close>, the working directory and \<open>out\<close> in it, and the
  regular files \<open>/tmp/existing_dir/old.txt\<close> and \<open>out/old.txt\<close>. The directory \<open>/private\<close>
  may not be searched: \<open>stat\<close> raises \<open>EACCES\<close> for what lies below it, as it raises
  \<open>ENOTDIR\<close> for what lies below a regular file, \<open>ENAMETOOLONG\<close> for a path with a name of
  more than 255 characters, and \<open>ENOENT\<close> for every other path.\<close>

definition no_files :: filesystem where
  "no_files = (\<lambda>p. Inl (OSError ENOENT))"

definition below :: "Path \<Rightarrow> Path \<Rightarrow> bool" where
  "below d p \<longleftrightarrow>
     root p = root d \<and> length (names d) < length (names p) \<and>
     take (length (names d)) (names p) = names d"

definition tmp_directories :: "Path list" where
  "tmp_directories =
     [\<lparr>root = ''/'', names = []\<rparr>, \<lparr>root = ''/'', names = [''tmp'']\<rparr>,
      \<lparr>root = ''/'', names = [''tmp'', ''existing_dir'']\<rparr>,
      \<lparr>root = ''/'', names = [''private'']\<rparr>,
      \<lparr>root = [], names = []\<rparr>, \<lparr>root = [], names = [''out'']\<rparr>]"

definition tmp_regular_files :: "Path list" where
  "tmp_regular_files =
     [\<lparr>root = ''/'', names = [''tmp'', ''existing_dir'', ''old.txt'']\<rparr>,
      \<lparr>root = [], names = [''out'', ''old.txt'']\<rparr>]"

definition tmp_files :: filesystem where
  "tmp_files =
     (\<lambda>p. if list_ex (\<lambda>n. 255 < length n) (names p) then Inl (OSError ENAMETOOLONG)
          else if p \<in> set tmp_directories then Inr Directory
          else if p \<in> set tmp_regular_files then Inr RegularFile
          else if below \<lparr>root = ''/'', names = [''private'']\<rparr> p then Inl (OSError EACCES)
          else if list_ex (\<lambda>f. below f p) tmp_regular_files then Inl (OSError ENOTDIR)
          else Inl (OSError ENOENT))"

text \<open>Two environments: in one the program \<open>git\<close> cannot be started
  (\<open>FileNotFoundError\<close>, the \<open>OSError\<close> with the number \<open>ENOENT\<close>); in the other it
  runs outside a repository and writes only a newline to standard output, and the package
  \<open>networkx\<close> is installed in version 2.5 and no other package is.\<close>

definition env_no_git :: environment where
  "env_no_git =
     \<lparr>resolve = (\<lambda>p. p\<lparr>root := ''/''\<rparr>), chdir = (\<lambda>p. None),
      run_git = (\<lambda>p. Inl (OSError ENOENT)),
      require_version = (\<lambda>p. Inl (DistributionNotFound p))\<rparr>"

definition env_no_repository :: environment where
  "env_no_repository =
     \<lparr>resolve = (\<lambda>p. p\<lparr>root := ''/''\<rparr>), chdir = (\<lambda>p. None),
      run_git = (\<lambda>p. Inr [CHR 0x0A]),
      require_version = (\<lambda>p. if p = ''networkx'' then Inr ''2.5''
                               else Inl (DistributionNotFound p))\<rparr>"

text \<open>A path string is in normal form when it is \<open>"."\<close>, or consists of one or two
  slashes, or starts with at most two slashes and goes on with one or more components
  separated by single slashes, none of them empty and none of them \<open>"."\<close> (so there is no
  doubled slash after the start and no slash at the end).\<close>

definition normal_path_string :: "string \<Rightarrow> bool" where
  "normal_path_string s =
     (s = ''.'' \<or>
      (let stripped = dropWhile (\<lambda>c. c = CHR ''/'') s;
           n = length s - length stripped
       in n \<le> 2 \<and>
          (if stripped = [] then 1 \<le> n
           else list_all (\<lambda>x. x \<noteq> [] \<and> x \<noteq> ''.'') (split_sep CHR ''/'' stripped))))"

text \<open>Worlds for \<open>rename_nodes\<close>. In the first, the key of the gate \<open>a\<close> followed by the
  suffix \<open>_s\<close> is the key of the input node \<open>a_s\<close>. In the second, the two nodes carry the
  same record. In the third, the gate \<open>a\<close> and the input node \<open>a_s\<close> both lead to the gate \<open>c\<close>,
  over edges with different attributes, and the key of \<open>a\<close> followed by the suffix is the
  key of \<open>a_s\<close>. In the fourth, a well-formed netlist, the
  input \<open>in0\<close> leads to the gate \<open>g0\<close> and the gate to the register \<open>r0\<close>, every node carries
  a record of its own, named as the node's key, and no key followed by \<open>_s\<close> is a key.\<close>

definition collision_world :: world where
  "collision_world =
     \<lparr>graph = \<lparr>G_node = [(''a'', nd_of 0), (''a_s'', nd_of 1)],
               G_adj = [(''a'', [(''a_s'', Map.empty)]), (''a_s'', [])]\<rparr>,
      heap = (\<lambda>a. if a = 0 then mk_node ''a'' ''AND2'' else mk_node ''a_s'' ''input'')\<rparr>"

definition shared_world :: world where
  "shared_world =
     \<lparr>graph = \<lparr>G_node = [(''x'', nd_of 0), (''y'', nd_of 0)],
               G_adj = [(''x'', []), (''y'', [])]\<rparr>,
      heap = (\<lambda>a. mk_node ''x'' ''AND2'')\<rparr>"


definition netlist_world :: world where
  "netlist_world =
     \<lparr>graph = \<lparr>G_node = [(''in0'', nd_of 0), (''g0'', nd_of 1), (''r0'', nd_of 2)],
               G_adj = [(''in0'', [(''g0'', [''pin'' \<mapsto> ''A1''])]),
                        (''g0'', [(''r0'', [''pin'' \<mapsto> ''D''])]),
                        (''r0'', [])]\<rparr>,
      heap = (\<lambda>a. if a = 0 then mk_node ''in0'' ''input''
                   else if a = 1 then mk_node ''g0'' ''AND2''
                   else mk_node ''r0'' ''DFF'')\<rparr>"

subsection \<open>Notions used in the proofs\<close>

text \<open>What \<open>add_edge\<close> does to the successors of the source of the edge, and the agreement
  of the two dictionaries of a graph on their keys.\<close>

definition add_nbr :: "string \<times> edge_attribute \<Rightarrow> (string \<times> edge_attribute) list
    \<Rightarrow> (string \<times> edge_attribute) list" where
  "add_nbr e nbrs =
     (case e of (v, dd) \<Rightarrow>
        setitem v ((case map_of nbrs v of Some d \<Rightarrow> d | None \<Rightarrow> Map.empty) ++ dd) nbrs)"

definition keys_agree :: "DiGraph \<Rightarrow> bool" where
  "keys_agree H \<longleftrightarrow> map fst (G_adj H) = map fst (G_node H) \<and> distinct (map fst (G_node H))"

section \<open>Properties\<close>

subsection \<open>print_ports\<close>

lemma print_ports_loop_eq:
  "print_ports_loop ports in_string out_string =
     (in_string @ concat (map (\<lambda>(n, p). n @ '' '')
                            (filter (\<lambda>(n, p). Port.type p = ''input'') ports)),
      out_string @ concat (map (\<lambda>(n, p). n @ '' '')
                             (filter (\<lambda>(n, p). Port.type p \<noteq> ''input'') ports)))"
  by (induction ports in_string out_string rule: print_ports_loop.induct) simp_all

text \<open>
  Claim C6. For every list of ports, \<open>print_ports\<close> emits exactly four lines: the rule, the
  line \<open>"Inputs:  "\<close> followed by the names of the ports whose type is \<open>"input"\<close>, the line
  \<open>"Outputs: "\<close> followed by the names of all other ports, and the rule again. The names
  stand in the order of the mapping, each followed by one space.
\<close>

theorem print_ports_lines:
  "print_ports TERMINAL_COLS ports =
     [header TERMINAL_COLS,
      ''Inputs:  '' @ concat (map (\<lambda>(n, p). n @ '' '')
                               (filter (\<lambda>(n, p). Port.type p = ''input'') ports)),
      ''Outputs: '' @ concat (map (\<lambda>(n, p). n @ '' '')
                               (filter (\<lambda>(n, p). Port.type p \<noteq> ''input'') ports)),
      header TERMINAL_COLS]"
  by (simp add: print_ports_def print_ports_loop_eq)

subsection \<open>The reporters\<close>

lemma get_registers_loop_eq:
  "get_registers_loop registers h nds acc = Inr (acc @ filter (is_register registers h) nds)"
  by (induction registers h nds acc rule: get_registers_loop.induct)
     (auto simp: getitem_node_def is_register_def)

lemma collect_gates_eq:
  "collect_gates h nds gates =
     Inr (gates @ concat (map (\<lambda>nd. case node nd of Some a \<Rightarrow> [Node.type (h a)] | None \<Rightarrow> [])
                            nds))"
  by (induction h nds gates rule: collect_gates.induct)
     (auto simp: getitem_node_def)

lemma collect_gates_record_types:
  "collect_gates (heap w) (map snd (G_node (graph w))) [] = Inr (record_types w)"
  by (simp add: collect_gates_eq record_types_def map_concat comp_def case_prod_unfold)

lemma rstrip_nul_padding: "\<exists>n. s = rstrip_nul s @ replicate n (CHR 0x00)"
proof -
  let ?P = "\<lambda>c. c = CHR 0x00"
  have "rev s = takeWhile ?P (rev s) @ dropWhile ?P (rev s)"
    by simp
  then have "s = rev (dropWhile ?P (rev s)) @ rev (takeWhile ?P (rev s))"
    by (metis rev_append rev_rev_ident)
  moreover have "\<forall>y\<in>set (rev (takeWhile ?P (rev s))). y = CHR 0x00"
    by (auto dest: set_takeWhileD)
  then have "rev (takeWhile ?P (rev s)) =
      replicate (length (takeWhile ?P (rev s))) (CHR 0x00)"
    using replicate_length_same [of "rev (takeWhile ?P (rev s))" "CHR 0x00"] by simp
  ultimately have "s = rstrip_nul s @ replicate (length (takeWhile ?P (rev s))) (CHR 0x00)"
    by (simp add: rstrip_nul_def)
  then show ?thesis ..
qed

lemma rstrip_nul_last: "rstrip_nul s = [] \<or> last (rstrip_nul s) \<noteq> CHR 0x00"
proof (cases "dropWhile (\<lambda>c. c = CHR 0x00) (rev s)")
  case Nil
  then show ?thesis by (simp add: rstrip_nul_def)
next
  case (Cons x xs)
  then have "x \<noteq> CHR 0x00"
    using hd_dropWhile [of "\<lambda>c. c = CHR 0x00" "rev s"] by auto
  with Cons show ?thesis by (simp add: rstrip_nul_def)
qed

lemma rstrip_nul_id: "s = [] \<or> last s \<noteq> CHR 0x00 \<Longrightarrow> rstrip_nul s = s"
  by (cases s rule: rev_cases) (auto simp: rstrip_nul_def)

lemma asanyarray_id: "list_all (\<lambda>t. t = [] \<or> last t \<noteq> CHR 0x00) ts \<Longrightarrow> asanyarray ts = ts"
  by (induction ts) (simp_all add: asanyarray_def rstrip_nul_id)

lemma stat_lines_eq:
  assumes "np_unique ar = (gates, number)"
  shows "map (\<lambda>cnt. gates ! cnt @ '': '' @ str_nat (number ! cnt)) [0..<length gates] =
         map (\<lambda>t. t @ '': '' @ str_nat (count_list (asanyarray ar) t))
           (sorted_list_of_set (set (asanyarray ar)))"
proof -
  from assms have g: "gates = sorted_list_of_set (set (asanyarray ar))"
    and n: "number = map (count_list (asanyarray ar)) gates"
    by (auto simp: np_unique_def Let_def sorted_list_of_set_sort_remdups)
  show ?thesis
    unfolding g [symmetric] by (rule nth_equalityI) (simp_all add: n)
qed

lemma print_graph_stat_eq:
  "print_graph_stat TERMINAL_COLS w =
     (Inr (map (\<lambda>t. t @ '': '' @ str_nat (count_list (asanyarray (record_types w)) t))
             (sorted_list_of_set (set (asanyarray (record_types w))))
           @ [header TERMINAL_COLS]), w)"
proof -
  obtain gates number where u: "np_unique (record_types w) = (gates, number)"
    by (cases "np_unique (record_types w)")
  show ?thesis
    using stat_lines_eq [OF u]
    by (simp add: print_graph_stat_def collect_gates_record_types u)
qed

lemma stat_world_types: "record_types stat_world = [''AND2'', ''AND2'', ''DFF'', ''OR2'']"
  by (simp add: record_types_def stat_world_def nd_of_def mk_node_def empty_attribute_def)

lemma stat_world_lines:
  "fst (print_graph_stat 3 stat_world) = Inr [''AND2: 2'', ''DFF: 1'', ''OR2: 1'', ''---'']"
  by code_simp

lemma without_recordless_simps:
  "heap (without_recordless w) = heap w"
  "G_node (graph (without_recordless w)) = filter (\<lambda>(k, nd). node nd \<noteq> None) (G_node (graph w))"
  by (simp_all add: without_recordless_def)

lemma types_filter_recordless:
  "concat (map (\<lambda>(k, nd). case node nd of Some a \<Rightarrow> [Node.type (h a)] | None \<Rightarrow> [])
             (filter (\<lambda>(k, nd). node nd \<noteq> None) xs)) =
   concat (map (\<lambda>(k, nd). case node nd of Some a \<Rightarrow> [Node.type (h a)] | None \<Rightarrow> []) xs)"
  by (induction xs) auto

lemma record_types_without_recordless: "record_types (without_recordless w) = record_types w"
  unfolding record_types_def without_recordless_simps by (rule types_filter_recordless)

lemma registers_filter_recordless:
  "filter (is_register registers h) (map snd (filter (\<lambda>(k, nd). node nd \<noteq> None) xs)) =
   filter (is_register registers h) (map snd xs)"
  by (induction xs) (auto simp: is_register_def)

lemma get_registers_without_recordless:
  "fst (get_registers registers (without_recordless w)) = fst (get_registers registers w)"
  unfolding get_registers_def get_registers_loop_eq without_recordless_simps fst_conv
  by (simp only: registers_filter_recordless)

text \<open>
  Claim C2. \<open>get_registers\<close> returns, in the iteration order of the graph, the attribute
  dictionaries (not the records) of exactly the nodes that carry a record whose type is in
  the table of registers; the list is empty exactly when no node qualifies; and the graph
  and the records are as they were.
\<close>

theorem get_registers_result:
  "get_registers registers w =
     (Inr (filter (is_register registers (heap w)) (map snd (G_node (graph w)))), w) \<and>
   (fst (get_registers registers w) = Inr []) =
     list_all (\<lambda>(k, nd). \<not> is_register registers (heap w) nd) (G_node (graph w))"
  by (auto simp: get_registers_def get_registers_loop_eq filter_empty_conv list_all_iff)

text \<open>Two nodes whose types differ only by a NUL character at the end have two distinct
  types, and are reported in one line with the count 2.\<close>

theorem nul_types_one_line:
  "record_types nul_world = [''A'' @ [CHR 0x00], ''A''] \<and>
   distinct (record_types nul_world) \<and>
   fst (print_graph_stat 3 nul_world) = Inr [''A: 2'', ''---'']"
proof -
  have "record_types nul_world = [''A'' @ [CHR 0x00], ''A'']"
    by (simp add: record_types_def nul_world_def nd_of_def mk_node_def)
  moreover have "fst (print_graph_stat 3 nul_world) = Inr [''A: 2'', ''---'']"
    by code_simp
  ultimately show ?thesis by simp
qed

text \<open>
  Claim C3, amended. \<open>print_graph_stat\<close> emits one line \<open>"<type>: <count>"\<close> for each distinct
  value among the types of the nodes that carry a record, each type taken without the NUL
  characters at its end, the count being the number of such nodes whose type has that
  value, in ascending order of the values, and then the rule; the graph and the records
  are as they were. A type \<open>t\<close> without the NUL characters at its end is \<open>rstrip_nul t\<close>:
  \<open>t\<close> is that string followed by NUL characters only, and that string does not end with
  one. When no type ends with a NUL character the lines are one for each distinct type,
  with the number of nodes of that type. For the types \<open>AND2\<close>, \<open>AND2\<close>, \<open>DFF\<close>, \<open>OR2\<close> the
  lines are \<open>AND2: 2\<close>, \<open>DFF: 1\<close>, \<open>OR2: 1\<close>.
\<close>

theorem print_graph_stat_lines:
  "print_graph_stat TERMINAL_COLS w =
     (Inr (map (\<lambda>t. t @ '': '' @ str_nat (count_list (map rstrip_nul (record_types w)) t))
             (sorted_list_of_set (set (map rstrip_nul (record_types w))))
           @ [header TERMINAL_COLS]), w) \<and>
   (\<exists>n. t = rstrip_nul t @ replicate n (CHR 0x00)) \<and>
   (rstrip_nul t = [] \<or> last (rstrip_nul t) \<noteq> CHR 0x00) \<and>
   (list_all (\<lambda>t. t = [] \<or> last t \<noteq> CHR 0x00) (record_types w) \<longrightarrow>
      print_graph_stat TERMINAL_COLS w =
        (Inr (map (\<lambda>t. t @ '': '' @ str_nat (count_list (record_types w) t))
                (sorted_list_of_set (set (record_types w)))
              @ [header TERMINAL_COLS]), w)) \<and>
   record_types stat_world = [''AND2'', ''AND2'', ''DFF'', ''OR2''] \<and>
   fst (print_graph_stat 3 stat_world) = Inr [''AND2: 2'', ''DFF: 1'', ''OR2: 1'', ''---'']"
proof -
  have 1: "print_graph_stat TERMINAL_COLS w =
     (Inr (map (\<lambda>t. t @ '': '' @ str_nat (count_list (map rstrip_nul (record_types w)) t))
             (sorted_list_of_set (set (map rstrip_nul (record_types w))))
           @ [header TERMINAL_COLS]), w)"
    using print_graph_stat_eq [of TERMINAL_COLS w] unfolding asanyarray_def .
  have 2: "print_graph_stat TERMINAL_COLS w =
        (Inr (map (\<lambda>t. t @ '': '' @ str_nat (count_list (record_types w) t))
                (sorted_list_of_set (set (record_types w)))
              @ [header TERMINAL_COLS]), w)"
    if "list_all (\<lambda>t. t = [] \<or> last t \<noteq> CHR 0x00) (record_types w)"
    using print_graph_stat_eq [of TERMINAL_COLS w] asanyarray_id [OF that] by simp
  from 1 2 rstrip_nul_padding [of t] rstrip_nul_last [of t] stat_world_types stat_world_lines
  show ?thesis by blast
qed

theorem print_graph_stat_lines_witness:
  "list_all (\<lambda>t. t = [] \<or> last t \<noteq> CHR 0x00) (record_types stat_world) \<and>
   print_graph_stat 3 stat_world =
     (Inr [''AND2: 2'', ''DFF: 1'', ''OR2: 1'', ''---''], stat_world)"
proof -
  have a: "list_all (\<lambda>t. t = [] \<or> last t \<noteq> CHR 0x00) (record_types stat_world)"
    unfolding stat_world_types by simp
  note th = print_graph_stat_lines [of 3 stat_world "[]"]
  from th have f: "fst (print_graph_stat 3 stat_world) =
      Inr [''AND2: 2'', ''DFF: 1'', ''OR2: 1'', ''---'']"
    by blast
  from th a have "print_graph_stat 3 stat_world =
        (Inr (map (\<lambda>t. t @ '': '' @ str_nat (count_list (record_types stat_world) t))
                (sorted_list_of_set (set (record_types stat_world)))
              @ [header 3]), stat_world)"
    by blast
  then have "snd (print_graph_stat 3 stat_world) = stat_world"
    by (rule arg_cong [where f = snd, THEN trans]) simp
  with f a show ?thesis
    by (simp add: prod_eq_iff)
qed

text \<open>
  Claim C10. On every graph, also one with nodes that carry no record, \<open>print_graph_stat\<close>
  and \<open>get_registers\<close> end without an exception, and what they give is what they give on
  the graph without those nodes.
\<close>

theorem reporters_skip_recordless:
  "(\<exists>lines. fst (print_graph_stat TERMINAL_COLS w) = Inr lines) \<and>
   (\<exists>regs. fst (get_registers registers w) = Inr regs) \<and>
   fst (print_graph_stat TERMINAL_COLS w) =
     fst (print_graph_stat TERMINAL_COLS (without_recordless w)) \<and>
   fst (get_registers registers w) = fst (get_registers registers (without_recordless w))"
proof -
  have "fst (get_registers registers (without_recordless w)) = fst (get_registers registers w)"
    by (rule get_registers_without_recordless)
  moreover have "fst (print_graph_stat TERMINAL_COLS (without_recordless w)) =
      fst (print_graph_stat TERMINAL_COLS w)"
    by (simp only: print_graph_stat_eq record_types_without_recordless fst_conv)
  ultimately show ?thesis
    by (simp add: print_graph_stat_eq get_registers_def get_registers_loop_eq)
qed

subsection \<open>The path validators\<close>

lemma split_sep_nonempty: "split_sep c xs \<noteq> []"
  by (induction xs) (auto split: list.splits)

lemma join_split_sep: "join [c] (split_sep c xs) = xs"
proof (induction xs)
  case Nil
  show ?case by simp
next
  case (Cons x xs)
  obtain p ps where s: "split_sep c xs = p # ps"
    using split_sep_nonempty [of c xs] by (cases "split_sep c xs") auto
  show ?case
  proof (cases "x = c")
    case True
    with Cons s show ?thesis by simp
  next
    case False
    with Cons s show ?thesis by (cases ps) auto
  qed
qed

lemma leading_slashes:
  "replicate (length s - length (dropWhile (\<lambda>c. c = CHR ''/'') s)) CHR ''/'' @
     dropWhile (\<lambda>c. c = CHR ''/'') s = s"
  by (induction s) (auto simp: Suc_diff_le length_dropWhile_le)

lemma str_path_normal:
  assumes "normal_path_string s"
  shows "str_path (Path_of s) = s"
proof (cases "s = ''.''")
  case True
  then show ?thesis by (simp add: Path_of_def str_path_def)
next
  case False
  define stripped where "stripped = dropWhile (\<lambda>c. c = CHR ''/'') s"
  define n where "n = length s - length stripped"
  from assms False have n2: "n \<le> 2"
    and rest: "if stripped = [] then 1 \<le> n
               else list_all (\<lambda>x. x \<noteq> [] \<and> x \<noteq> ''.'') (split_sep CHR ''/'' stripped)"
    unfolding normal_path_string_def Let_def stripped_def n_def by blast+
  have s: "replicate n CHR ''/'' @ stripped = s"
    unfolding n_def stripped_def by (rule leading_slashes)
  have r: "root (Path_of s) = replicate n CHR ''/''"
  proof -
    have "root (Path_of s) = (if n = 0 then [] else if n = 2 then ''//'' else ''/'')"
      unfolding Path_of_def Let_def n_def stripped_def by simp
    moreover from n2 have "n = 0 \<or> n = 1 \<or> n = 2" by arith
    ultimately show ?thesis
      by (auto simp: numeral_2_eq_2)
  qed
  have nm: "join ''/'' (names (Path_of s)) = stripped"
  proof (cases "stripped = []")
    case True
    then show ?thesis
      by (simp add: Path_of_def Let_def stripped_def [symmetric])
  next
    case False
    with rest have "filter (\<lambda>x. x \<noteq> [] \<and> x \<noteq> ''.'') (split_sep CHR ''/'' stripped) =
        split_sep CHR ''/'' stripped"
      by (simp add: list_all_iff)
    then show ?thesis
      by (simp add: Path_of_def Let_def stripped_def [symmetric] join_split_sep)
  qed
  from rest s have "s \<noteq> []" by (cases "stripped = []") auto
  with r nm s show ?thesis
    by (simp add: str_path_def Let_def)
qed


lemma Path_of_examples:
  "Path_of ''a//b'' = \<lparr>root = [], names = [''a'', ''b'']\<rparr>"
  "Path_of ''/no/such/file'' = \<lparr>root = ''/'', names = [''no'', ''such'', ''file'']\<rparr>"
  "Path_of ''/tmp/existing_dir/newfile.txt'' =
     \<lparr>root = ''/'', names = [''tmp'', ''existing_dir'', ''newfile.txt'']\<rparr>"
  "Path_of ''/no/such/dir/newfile.txt'' =
     \<lparr>root = ''/'', names = [''no'', ''such'', ''dir'', ''newfile.txt'']\<rparr>"
  "Path_of ''out/x.txt'' = \<lparr>root = [], names = [''out'', ''x.txt'']\<rparr>"
  "Path_of ''./tool.py'' = \<lparr>root = [], names = [''tool.py'']\<rparr>"
  "Path_of ''/tmp/existing_dir/old.txt'' =
     \<lparr>root = ''/'', names = [''tmp'', ''existing_dir'', ''old.txt'']\<rparr>"
  "Path_of ''/tmp/existing_dir'' = \<lparr>root = ''/'', names = [''tmp'', ''existing_dir'']\<rparr>"
  "Path_of ''out/old.txt'' = \<lparr>root = [], names = [''out'', ''old.txt'']\<rparr>"
  "Path_of ''/private/key'' = \<lparr>root = ''/'', names = [''private'', ''key'']\<rparr>"
  "Path_of ''/private/sub/x'' = \<lparr>root = ''/'', names = [''private'', ''sub'', ''x'']\<rparr>"
  "Path_of ''/tmp/existing_dir/old.txt/x'' =
     \<lparr>root = ''/'', names = [''tmp'', ''existing_dir'', ''old.txt'', ''x'']\<rparr>"
  "Path_of ''x.txt'' = \<lparr>root = [], names = [''x.txt'']\<rparr>"
  by (simp_all add: Path_of_def)

lemma tmp_files_examples:
  "tmp_files \<lparr>root = ''/'', names = [''tmp'', ''existing_dir'', ''old.txt'']\<rparr> = Inr RegularFile"
  "tmp_files \<lparr>root = [], names = [''out'', ''old.txt'']\<rparr> = Inr RegularFile"
  "tmp_files \<lparr>root = ''/'', names = [''tmp'', ''existing_dir'']\<rparr> = Inr Directory"
  "tmp_files \<lparr>root = [], names = [''out'']\<rparr> = Inr Directory"
  "tmp_files \<lparr>root = [], names = []\<rparr> = Inr Directory"
  "tmp_files \<lparr>root = ''/'', names = [''no'', ''such'', ''file'']\<rparr> = Inl (OSError ENOENT)"
  "tmp_files \<lparr>root = ''/'', names = [''no'', ''such'', ''dir'']\<rparr> = Inl (OSError ENOENT)"
  "tmp_files \<lparr>root = ''/'', names = [''private'', ''key'']\<rparr> = Inl (OSError EACCES)"
  "tmp_files \<lparr>root = ''/'', names = [''private'', ''sub'']\<rparr> = Inl (OSError EACCES)"
  "tmp_files \<lparr>root = ''/'', names = [''tmp'', ''existing_dir'', ''old.txt'', ''x'']\<rparr> =
     Inl (OSError ENOTDIR)"
  by (simp_all add: tmp_files_def tmp_directories_def tmp_regular_files_def below_def)

lemma errno_distinct:
  "EACCES \<notin> {ENOENT, ENOTDIR, EBADF, ELOOP}"
  "ENAMETOOLONG \<notin> {ENOENT, ENOTDIR, EBADF, ELOOP}"
  by (simp_all add: ENOENT_def ENOTDIR_def EBADF_def ELOOP_def EACCES_def ENAMETOOLONG_def)

lemma long_name:
  "Path_of (replicate 300 CHR ''a'') = \<lparr>root = [], names = [replicate 300 CHR ''a'']\<rparr>"
  "tmp_files \<lparr>root = [], names = [replicate 300 CHR ''a'']\<rparr> = Inl (OSError ENAMETOOLONG)"
  "Path_of (replicate 300 CHR ''a'' @ ''/x'') =
     \<lparr>root = [], names = [replicate 300 CHR ''a'', ''x'']\<rparr>"
  by code_simp+

lemma is_absolute_Path_of: "is_absolute (Path_of s) \<longleftrightarrow> take 1 s = ''/''"
proof (cases s)
  case Nil
  then show ?thesis by (simp add: is_absolute_def Path_of_def)
next
  case (Cons c cs)
  have "length (dropWhile (\<lambda>c. c = CHR ''/'') cs) \<le> length cs"
    by (rule length_dropWhile_le)
  with Cons show ?thesis
    by (auto simp: is_absolute_def Path_of_def Let_def)
qed

lemma parent_eq: "parent p = \<lparr>root = root p, names = butlast (names p)\<rparr>"
  by (cases p) (simp add: parent_def)

lemma is_file_cases:
  "fs p = Inr kind \<Longrightarrow> is_file fs p = Inr (kind = RegularFile)"
  "fs p = Inl ValueError \<Longrightarrow> is_file fs p = Inr False"
  "fs p = Inl (OSError errno) \<Longrightarrow>
     is_file fs p = (if errno \<in> {ENOENT, ENOTDIR, EBADF, ELOOP} then Inr False
                     else Inl (OSError errno))"
  by (simp_all add: is_file_def stat_def ignore_error_def)

lemma is_file_True: "is_file fs p = Inr True \<longleftrightarrow> fs p = Inr RegularFile"
  by (auto simp: is_file_def stat_def split: sum.splits error.splits if_splits)

lemma path_exists_cases:
  "fs p = Inr kind \<Longrightarrow> path_exists fs p = Inr True"
  "fs p = Inl ValueError \<Longrightarrow> path_exists fs p = Inr False"
  "fs p = Inl (OSError errno) \<Longrightarrow>
     path_exists fs p = (if errno \<in> {ENOENT, ENOTDIR, EBADF, ELOOP} then Inr False
                         else Inl (OSError errno))"
  by (simp_all add: path_exists_def stat_def ignore_error_def)

lemma path_exists_True: "path_exists fs p = Inr True \<longleftrightarrow> (\<exists>kind. fs p = Inr kind)"
  by (auto simp: path_exists_def stat_def split: sum.splits error.splits if_splits)

lemma ap_check_file_exists_eq:
  "ap_check_file_exists fs file_path =
     (case is_file fs (Path_of file_path) of
        Inl e \<Rightarrow> Inl e
      | Inr b \<Rightarrow>
          if b then Inr (Path_of file_path)
          else Inl (ArgumentTypeError
                      (''File '' @ str_path (Path_of file_path) @ '' does not exist'')))"
  by (simp add: ap_check_file_exists_def Let_def split: sum.splits)

lemma ap_check_dir_exists_eq:
  "ap_check_dir_exists fs path_string =
     (case path_exists fs (parent (Path_of path_string)) of
        Inl e \<Rightarrow> Inl e
      | Inr b \<Rightarrow>
          if b then Inr (Path_of path_string)
          else Inl (ArgumentTypeError
                      (''Path '' @ str_path (parent (Path_of path_string)) @
                       '' does not exist'')))"
  by (simp add: ap_check_dir_exists_def Let_def split: sum.splits)

text \<open>Three ways in which \<open>ap_check_file_exists\<close> is not as stated. The message does not
  always hold the string that was given: for \<open>a//b\<close> it names \<open>a/b\<close>. The path returned is
  not resolved: for the relative string \<open>out/old.txt\<close> it is the relative path, which is
  not absolute. A path that \<open>stat\<close> refuses with another error than the four that
  \<open>is_file\<close> catches does not lead to a file, and the \<open>OSError\<close> leaves the function, not
  the error of the argument parser.\<close>

theorem ap_check_file_exists_deviations:
  "ap_check_file_exists no_files ''a//b'' =
     Inl (ArgumentTypeError ''File a/b does not exist'') \<and>
   ap_check_file_exists tmp_files ''out/old.txt'' =
     Inr \<lparr>root = [], names = [''out'', ''old.txt'']\<rparr> \<and>
   \<not> is_absolute \<lparr>root = [], names = [''out'', ''old.txt'']\<rparr> \<and>
   ap_check_file_exists tmp_files ''/private/key'' = Inl (OSError EACCES) \<and>
   ap_check_file_exists tmp_files (replicate 300 CHR ''a'') = Inl (OSError ENAMETOOLONG)"
proof -
  have "no_files (Path_of ''a//b'') = Inl (OSError ENOENT)"
    by (simp add: no_files_def)
  then have "ap_check_file_exists no_files ''a//b'' =
      Inl (ArgumentTypeError ''File a/b does not exist'')"
    by (simp add: ap_check_file_exists_eq is_file_cases Path_of_examples str_path_def)
  moreover have "ap_check_file_exists tmp_files ''out/old.txt'' =
      Inr \<lparr>root = [], names = [''out'', ''old.txt'']\<rparr>"
    by (simp add: ap_check_file_exists_eq is_file_cases Path_of_examples tmp_files_examples)
  moreover have "\<not> is_absolute \<lparr>root = [], names = [''out'', ''old.txt'']\<rparr>"
    by (simp add: is_absolute_def)
  moreover have "ap_check_file_exists tmp_files ''/private/key'' = Inl (OSError EACCES)"
    using errno_distinct
    by (simp add: ap_check_file_exists_eq is_file_cases Path_of_examples tmp_files_examples)
  moreover have "ap_check_file_exists tmp_files (replicate 300 CHR ''a'') =
      Inl (OSError ENAMETOOLONG)"
    using errno_distinct
    by (simp only: ap_check_file_exists_eq is_file_cases long_name if_False sum.case)
  ultimately show ?thesis by blast
qed

text \<open>
  Claim C4, amended. \<open>ap_check_file_exists\<close> succeeds exactly when \<open>stat\<close> finds a regular
  file at the path; it then returns the path object built from the string, which is
  absolute only when the string starts with a slash (it is not resolved). When \<open>stat\<close>
  finds a file of another kind, or raises \<open>ValueError\<close> or an \<open>OSError\<close> with one of the
  numbers \<open>ENOENT\<close>, \<open>ENOTDIR\<close>, \<open>EBADF\<close>, \<open>ELOOP\<close>, the function raises
  \<open>ArgumentTypeError\<close> with the message \<open>"File <p> does not exist"\<close>, where \<open><p>\<close> is the
  string form of the path object; that is the string given whenever the string is in
  normal form. An \<open>OSError\<close> with another number leaves the function as it is.
\<close>

theorem ap_check_file_exists_result:
  "((\<exists>p. ap_check_file_exists fs file_path = Inr p) \<longleftrightarrow>
      fs (Path_of file_path) = Inr RegularFile) \<and>
   (fs (Path_of file_path) = Inr RegularFile \<longrightarrow>
      ap_check_file_exists fs file_path = Inr (Path_of file_path)) \<and>
   (is_absolute (Path_of file_path) \<longleftrightarrow> take 1 file_path = ''/'') \<and>
   (fs (Path_of file_path) \<in>
      {Inr Directory, Inr OtherFile, Inl ValueError, Inl (OSError ENOENT),
       Inl (OSError ENOTDIR), Inl (OSError EBADF), Inl (OSError ELOOP)} \<longrightarrow>
      ap_check_file_exists fs file_path =
        Inl (ArgumentTypeError (''File '' @ str_path (Path_of file_path) @ '' does not exist''))) \<and>
   (normal_path_string file_path \<longrightarrow> str_path (Path_of file_path) = file_path) \<and>
   (fs (Path_of file_path) = Inl (OSError errno) \<longrightarrow>
    errno \<notin> {ENOENT, ENOTDIR, EBADF, ELOOP} \<longrightarrow>
      ap_check_file_exists fs file_path = Inl (OSError errno))"
proof -
  have 1: "(\<exists>p. ap_check_file_exists fs file_path = Inr p) \<longleftrightarrow>
      fs (Path_of file_path) = Inr RegularFile"
    unfolding is_file_True [symmetric]
    by (auto simp: ap_check_file_exists_eq split: sum.splits)
  have 2: "ap_check_file_exists fs file_path = Inr (Path_of file_path)"
    if "fs (Path_of file_path) = Inr RegularFile"
    using that by (simp add: ap_check_file_exists_eq is_file_cases)
  have 3: "ap_check_file_exists fs file_path =
        Inl (ArgumentTypeError (''File '' @ str_path (Path_of file_path) @ '' does not exist''))"
    if "fs (Path_of file_path) \<in>
      {Inr Directory, Inr OtherFile, Inl ValueError, Inl (OSError ENOENT),
       Inl (OSError ENOTDIR), Inl (OSError EBADF), Inl (OSError ELOOP)}"
    using that by (auto simp: ap_check_file_exists_eq is_file_cases)
  have 4: "ap_check_file_exists fs file_path = Inl (OSError errno)"
    if "fs (Path_of file_path) = Inl (OSError errno)"
      "errno \<notin> {ENOENT, ENOTDIR, EBADF, ELOOP}"
    using that by (simp add: ap_check_file_exists_eq is_file_cases)
  from 1 2 3 4 is_absolute_Path_of [of file_path] str_path_normal [of file_path]
  show ?thesis by blast
qed

theorem ap_check_file_exists_result_witness:
  "ap_check_file_exists tmp_files ''/tmp/existing_dir/old.txt'' =
     Inr \<lparr>root = ''/'', names = [''tmp'', ''existing_dir'', ''old.txt'']\<rparr> \<and>
   normal_path_string ''/no/such/file'' \<and>
   ap_check_file_exists tmp_files ''/no/such/file'' =
     Inl (ArgumentTypeError ''File /no/such/file does not exist'') \<and>
   ap_check_file_exists tmp_files ''/tmp/existing_dir'' =
     Inl (ArgumentTypeError ''File /tmp/existing_dir does not exist'') \<and>
   tmp_files (Path_of ''/private/key'') = Inl (OSError EACCES) \<and>
   EACCES \<notin> {ENOENT, ENOTDIR, EBADF, ELOOP} \<and>
   ap_check_file_exists tmp_files ''/private/key'' = Inl (OSError EACCES)"
proof -
  have n: "normal_path_string ''/no/such/file''" "normal_path_string ''/tmp/existing_dir''"
    by (simp_all add: normal_path_string_def)
  have a: "ap_check_file_exists tmp_files ''/tmp/existing_dir/old.txt'' =
     Inr \<lparr>root = ''/'', names = [''tmp'', ''existing_dir'', ''old.txt'']\<rparr>"
    using ap_check_file_exists_result [of tmp_files "''/tmp/existing_dir/old.txt''"]
    by (simp add: Path_of_examples tmp_files_examples)
  have b: "ap_check_file_exists tmp_files ''/no/such/file'' =
     Inl (ArgumentTypeError ''File /no/such/file does not exist'')"
    using ap_check_file_exists_result [of tmp_files "''/no/such/file''"] n
    by (simp add: Path_of_examples tmp_files_examples)
  have c: "ap_check_file_exists tmp_files ''/tmp/existing_dir'' =
     Inl (ArgumentTypeError ''File /tmp/existing_dir does not exist'')"
    using ap_check_file_exists_result [of tmp_files "''/tmp/existing_dir''"] n
    by (simp add: Path_of_examples tmp_files_examples)
  have d: "tmp_files (Path_of ''/private/key'') = Inl (OSError EACCES)"
    by (simp add: Path_of_examples tmp_files_examples)
  have e: "ap_check_file_exists tmp_files ''/private/key'' = Inl (OSError EACCES)"
    using ap_check_file_exists_result [of tmp_files "''/private/key''" EACCES] d errno_distinct
    by simp
  from a b c d e n errno_distinct show ?thesis by simp
qed

text \<open>Two ways in which \<open>ap_check_dir_exists\<close> is not as stated. It asks whether the parent
  exists, not whether it is a directory: below the regular file
  \<open>/tmp/existing_dir/old.txt\<close> it succeeds. And an \<open>OSError\<close> of \<open>stat\<close> with another error
  than the four that \<open>exists\<close> catches leaves the function, not the error of the argument
  parser.\<close>

theorem ap_check_dir_exists_deviations:
  "parent (Path_of ''/tmp/existing_dir/old.txt/x'') =
     \<lparr>root = ''/'', names = [''tmp'', ''existing_dir'', ''old.txt'']\<rparr> \<and>
   tmp_files \<lparr>root = ''/'', names = [''tmp'', ''existing_dir'', ''old.txt'']\<rparr> = Inr RegularFile \<and>
   ap_check_dir_exists tmp_files ''/tmp/existing_dir/old.txt/x'' =
     Inr \<lparr>root = ''/'', names = [''tmp'', ''existing_dir'', ''old.txt'', ''x'']\<rparr> \<and>
   ap_check_dir_exists tmp_files ''/private/sub/x'' = Inl (OSError EACCES) \<and>
   ap_check_dir_exists tmp_files (replicate 300 CHR ''a'' @ ''/x'') = Inl (OSError ENAMETOOLONG)"
proof -
  have p: "parent (Path_of ''/tmp/existing_dir/old.txt/x'') =
     \<lparr>root = ''/'', names = [''tmp'', ''existing_dir'', ''old.txt'']\<rparr>"
    by (simp add: Path_of_examples parent_def)
  have "ap_check_dir_exists tmp_files ''/tmp/existing_dir/old.txt/x'' =
     Inr \<lparr>root = ''/'', names = [''tmp'', ''existing_dir'', ''old.txt'', ''x'']\<rparr>"
    by (simp add: ap_check_dir_exists_eq p path_exists_cases tmp_files_examples)
       (simp add: Path_of_examples)
  moreover have "parent (Path_of ''/private/sub/x'') =
      \<lparr>root = ''/'', names = [''private'', ''sub'']\<rparr>"
    by (simp add: Path_of_examples parent_def)
  then have "ap_check_dir_exists tmp_files ''/private/sub/x'' = Inl (OSError EACCES)"
    using errno_distinct
    by (simp add: ap_check_dir_exists_eq path_exists_cases tmp_files_examples)
  moreover have "parent (Path_of (replicate 300 CHR ''a'' @ ''/x'')) =
      \<lparr>root = [], names = [replicate 300 CHR ''a'']\<rparr>"
    by (simp only: long_name parent_eq Path.simps butlast.simps list.simps simp_thms
          if_True if_False)
  then have "ap_check_dir_exists tmp_files (replicate 300 CHR ''a'' @ ''/x'') =
      Inl (OSError ENAMETOOLONG)"
    using errno_distinct
    by (simp only: ap_check_dir_exists_eq path_exists_cases long_name if_False sum.case)
  ultimately show ?thesis
    using p tmp_files_examples by blast
qed

text \<open>
  Claim C5, amended. \<open>ap_check_dir_exists\<close> succeeds exactly when \<open>stat\<close> finds a file of any
  kind (a directory or not) at the parent of the path, which is the path without its last
  component; the path itself need not exist. It then returns the path object built from
  the string, which is absolute only when the string starts with a slash (it is not
  resolved). When \<open>stat\<close> raises \<open>ValueError\<close> or an \<open>OSError\<close> with one of the numbers
  \<open>ENOENT\<close>, \<open>ENOTDIR\<close>, \<open>EBADF\<close>, \<open>ELOOP\<close> for the parent, the function raises
  \<open>ArgumentTypeError\<close> with the message \<open>"Path <parent> does not exist"\<close>, with the string
  form of the parent. An \<open>OSError\<close> with another number leaves the function as it is.
\<close>

theorem ap_check_dir_exists_result:
  "((\<exists>p. ap_check_dir_exists fs path_string = Inr p) \<longleftrightarrow>
      (\<exists>kind. fs (parent (Path_of path_string)) = Inr kind)) \<and>
   parent (Path_of path_string) =
     \<lparr>root = root (Path_of path_string), names = butlast (names (Path_of path_string))\<rparr> \<and>
   (fs (parent (Path_of path_string)) = Inr kind \<longrightarrow>
      ap_check_dir_exists fs path_string = Inr (Path_of path_string)) \<and>
   (is_absolute (Path_of path_string) \<longleftrightarrow> take 1 path_string = ''/'') \<and>
   (fs (parent (Path_of path_string)) \<in>
      {Inl ValueError, Inl (OSError ENOENT), Inl (OSError ENOTDIR), Inl (OSError EBADF),
       Inl (OSError ELOOP)} \<longrightarrow>
      ap_check_dir_exists fs path_string =
        Inl (ArgumentTypeError
               (''Path '' @ str_path (parent (Path_of path_string)) @ '' does not exist''))) \<and>
   (fs (parent (Path_of path_string)) = Inl (OSError errno) \<longrightarrow>
    errno \<notin> {ENOENT, ENOTDIR, EBADF, ELOOP} \<longrightarrow>
      ap_check_dir_exists fs path_string = Inl (OSError errno))"
proof -
  let ?p = "parent (Path_of path_string)"
  have 1: "(\<exists>p. ap_check_dir_exists fs path_string = Inr p) \<longleftrightarrow> (\<exists>kind. fs ?p = Inr kind)"
    unfolding path_exists_True [symmetric]
    by (auto simp: ap_check_dir_exists_eq split: sum.splits)
  have 2: "ap_check_dir_exists fs path_string = Inr (Path_of path_string)"
    if "fs ?p = Inr kind"
    using that by (simp add: ap_check_dir_exists_eq path_exists_cases)
  have 3: "ap_check_dir_exists fs path_string =
        Inl (ArgumentTypeError (''Path '' @ str_path ?p @ '' does not exist''))"
    if "fs ?p \<in> {Inl ValueError, Inl (OSError ENOENT), Inl (OSError ENOTDIR),
                    Inl (OSError EBADF), Inl (OSError ELOOP)}"
    using that by (auto simp: ap_check_dir_exists_eq path_exists_cases)
  have 4: "ap_check_dir_exists fs path_string = Inl (OSError errno)"
    if "fs ?p = Inl (OSError errno)" "errno \<notin> {ENOENT, ENOTDIR, EBADF, ELOOP}"
    using that by (simp add: ap_check_dir_exists_eq path_exists_cases)
  from 1 2 3 4 is_absolute_Path_of [of path_string] parent_eq [of "Path_of path_string"]
  show ?thesis by blast
qed

theorem ap_check_dir_exists_result_witness:
  "tmp_files (Path_of ''/tmp/existing_dir/newfile.txt'') = Inl (OSError ENOENT) \<and>
   ap_check_dir_exists tmp_files ''/tmp/existing_dir/newfile.txt'' =
     Inr \<lparr>root = ''/'', names = [''tmp'', ''existing_dir'', ''newfile.txt'']\<rparr> \<and>
   ap_check_dir_exists tmp_files ''/no/such/dir/newfile.txt'' =
     Inl (ArgumentTypeError ''Path /no/such/dir does not exist'') \<and>
   ap_check_dir_exists tmp_files ''out/x.txt'' = Inr \<lparr>root = [], names = [''out'', ''x.txt'']\<rparr> \<and>
   ap_check_dir_exists tmp_files ''x.txt'' = Inr \<lparr>root = [], names = [''x.txt'']\<rparr> \<and>
   ap_check_dir_exists tmp_files ''/private/sub/x'' = Inl (OSError EACCES)"
proof -
  have 0: "tmp_files (Path_of ''/tmp/existing_dir/newfile.txt'') = Inl (OSError ENOENT)"
    by (simp add: Path_of_examples tmp_files_def tmp_directories_def tmp_regular_files_def
          below_def)
  have a: "ap_check_dir_exists tmp_files ''/tmp/existing_dir/newfile.txt'' =
     Inr \<lparr>root = ''/'', names = [''tmp'', ''existing_dir'', ''newfile.txt'']\<rparr>"
    using ap_check_dir_exists_result [of tmp_files "''/tmp/existing_dir/newfile.txt''" Directory]
    by (simp add: Path_of_examples parent_def tmp_files_examples)
  have b: "ap_check_dir_exists tmp_files ''/no/such/dir/newfile.txt'' =
     Inl (ArgumentTypeError ''Path /no/such/dir does not exist'')"
    using ap_check_dir_exists_result [of tmp_files "''/no/such/dir/newfile.txt''"]
    by (simp add: Path_of_examples parent_def tmp_files_examples str_path_def)
  have c: "ap_check_dir_exists tmp_files ''out/x.txt'' =
      Inr \<lparr>root = [], names = [''out'', ''x.txt'']\<rparr>"
    using ap_check_dir_exists_result [of tmp_files "''out/x.txt''" Directory]
    by (simp add: Path_of_examples parent_def tmp_files_examples)
  have d: "ap_check_dir_exists tmp_files ''x.txt'' = Inr \<lparr>root = [], names = [''x.txt'']\<rparr>"
    using ap_check_dir_exists_result [of tmp_files "''x.txt''" Directory]
    by (simp add: Path_of_examples parent_def tmp_files_examples)
  have e: "ap_check_dir_exists tmp_files ''/private/sub/x'' = Inl (OSError EACCES)"
    using ap_check_dir_exists_result [of tmp_files "''/private/sub/x''" _ EACCES] errno_distinct
    by (simp add: Path_of_examples parent_def tmp_files_examples)
  from 0 a b c d e show ?thesis by simp
qed

subsection \<open>show_and_exit\<close>

lemma write_packages_outcome:
  "snd (write_packages env packages err) = Exit 0 \<or>
   (\<exists>e. snd (write_packages env packages err) = Raise e)"
  by (induction env packages err rule: write_packages.induct) (auto split: sum.splits)

lemma write_packages_first:
  "\<exists>rest. fst (write_packages env packages (l # err)) = l # rest"
  by (induction env packages "l # err" arbitrary: err rule: write_packages.induct)
     (auto split: sum.splits)

lemma write_packages_complete:
  "list_all (\<lambda>p. \<not> isl (require_version env p)) packages \<Longrightarrow>
   write_packages env packages err =
     (err @ map (\<lambda>p. p @ '' '' @ projr (require_version env p) @ [CHR 0x0A]) packages, Exit 0)"
  by (induction env packages err rule: write_packages.induct) (auto split: sum.splits)

lemma write_packages_missing:
  "list_all (\<lambda>p. \<not> isl (require_version env p)) ps \<Longrightarrow>
   require_version env p = Inl e \<Longrightarrow>
   write_packages env (ps @ p # qs) err =
     (err @ map (\<lambda>p. p @ '' '' @ projr (require_version env p) @ [CHR 0x0A]) ps, Raise e)"
  by (induction env ps err rule: write_packages.induct) (auto split: sum.splits)

lemma show_and_exit_outcome:
  "snd (show_and_exit env clitool packages) = Exit 0 \<or>
   (\<exists>e. snd (show_and_exit env clitool packages) = Raise e)"
  using write_packages_outcome
  by (auto simp: show_and_exit_def Let_def split: option.splits sum.splits)

text \<open>When the program \<open>git\<close> cannot be started, the exception of \<open>subprocess.run\<close>
  leaves the function: nothing is written and no fallback is substituted.\<close>

theorem git_missing_no_fallback:
  "show_and_exit env_no_git ''./tool.py'' [] = ([], Raise (OSError ENOENT))"
  by (simp add: show_and_exit_def env_no_git_def Let_def)

text \<open>
  Claim C9, amended. \<open>show_and_exit\<close> never returns: it ends the process with status 0
  or an exception leaves it. With \<open>util_path\<close> the parent of the resolved path of the
  tool: when the directory change raises, when \<open>git\<close> cannot be started, or when what
  \<open>git\<close> wrote is not ASCII, that exception leaves the function and nothing is written.
  When \<open>git\<close> runs and writes nothing but whitespace to its standard output, the first line
  written names the fallback revision string. When the directory change, the run of \<open>git\<close>
  and the decoding succeed and every package is installed, the function writes the revision
  line and one line for each package and ends the process with status 0; when a package is
  not installed, the exception of the first such package leaves the function after the
  revision line and the lines of the packages before it.
\<close>

theorem show_and_exit_never_returns:
  "snd (show_and_exit env clitool packages) \<noteq> Return \<and>
   (snd (show_and_exit env clitool packages) = Exit 0 \<or>
    (\<exists>e. snd (show_and_exit env clitool packages) = Raise e)) \<and>
   (chdir env (parent (resolve env (Path_of clitool))) = Some e \<longrightarrow>
      show_and_exit env clitool packages = ([], Raise e)) \<and>
   (chdir env (parent (resolve env (Path_of clitool))) = None \<longrightarrow>
    run_git env (parent (resolve env (Path_of clitool))) = Inl e \<longrightarrow>
      show_and_exit env clitool packages = ([], Raise e)) \<and>
   (chdir env (parent (resolve env (Path_of clitool))) = None \<longrightarrow>
    run_git env (parent (resolve env (Path_of clitool))) = Inr stdout \<longrightarrow>
    decode_ascii (strip stdout) = Inl e \<longrightarrow>
      show_and_exit env clitool packages = ([], Raise e)) \<and>
   (chdir env (parent (resolve env (Path_of clitool))) = None \<longrightarrow>
    run_git env (parent (resolve env (Path_of clitool))) = Inr stdout \<longrightarrow>
    strip stdout = [] \<longrightarrow>
      (\<exists>rest. fst (show_and_exit env clitool packages) =
         (clitool @ '' Git version not found (not in Git repository?)'' @ [CHR 0x0A]) # rest)) \<and>
   (chdir env (parent (resolve env (Path_of clitool))) = None \<longrightarrow>
    run_git env (parent (resolve env (Path_of clitool))) = Inr stdout \<longrightarrow>
    decode_ascii (strip stdout) = Inr ver \<longrightarrow>
    list_all (\<lambda>p. \<not> isl (require_version env p)) packages \<longrightarrow>
      show_and_exit env clitool packages =
        ((clitool @ '' Git version '' @
            (if ver = [] then ''not found (not in Git repository?)'' else ver) @ [CHR 0x0A]) #
         map (\<lambda>p. p @ '' '' @ projr (require_version env p) @ [CHR 0x0A]) packages,
         Exit 0)) \<and>
   (chdir env (parent (resolve env (Path_of clitool))) = None \<longrightarrow>
    run_git env (parent (resolve env (Path_of clitool))) = Inr stdout \<longrightarrow>
    decode_ascii (strip stdout) = Inr ver \<longrightarrow>
    packages = ps @ p # qs \<longrightarrow>
    list_all (\<lambda>p. \<not> isl (require_version env p)) ps \<longrightarrow>
    require_version env p = Inl e \<longrightarrow>
      show_and_exit env clitool packages =
        ((clitool @ '' Git version '' @
            (if ver = [] then ''not found (not in Git repository?)'' else ver) @ [CHR 0x0A]) #
         map (\<lambda>p. p @ '' '' @ projr (require_version env p) @ [CHR 0x0A]) ps,
         Raise e))"
proof -
  let ?u = "parent (resolve env (Path_of clitool))"
  have 1: "snd (show_and_exit env clitool packages) = Exit 0 \<or>
      (\<exists>e. snd (show_and_exit env clitool packages) = Raise e)"
    by (rule show_and_exit_outcome)
  then have 0: "snd (show_and_exit env clitool packages) \<noteq> Return" by auto
  have a: "show_and_exit env clitool packages = ([], Raise e)" if "chdir env ?u = Some e"
    using that by (simp add: show_and_exit_def Let_def)
  have b: "show_and_exit env clitool packages = ([], Raise e)"
    if "chdir env ?u = None" "run_git env ?u = Inl e"
    using that by (simp add: show_and_exit_def Let_def)
  have c: "show_and_exit env clitool packages = ([], Raise e)"
    if "chdir env ?u = None" "run_git env ?u = Inr stdout" "decode_ascii (strip stdout) = Inl e"
    using that by (simp add: show_and_exit_def Let_def)
  have 2: "\<exists>rest. fst (show_and_exit env clitool packages) =
         (clitool @ '' Git version not found (not in Git repository?)'' @ [CHR 0x0A]) # rest"
    if "chdir env ?u = None" "run_git env ?u = Inr stdout" "strip stdout = []"
    using that write_packages_first
    by (simp add: show_and_exit_def Let_def decode_ascii_def)
  have 3: "show_and_exit env clitool packages =
        ((clitool @ '' Git version '' @
            (if ver = [] then ''not found (not in Git repository?)'' else ver) @ [CHR 0x0A]) #
         map (\<lambda>p. p @ '' '' @ projr (require_version env p) @ [CHR 0x0A]) packages,
         Exit 0)"
    if "chdir env ?u = None" "run_git env ?u = Inr stdout" "decode_ascii (strip stdout) = Inr ver"
      "list_all (\<lambda>p. \<not> isl (require_version env p)) packages"
    using that by (simp add: show_and_exit_def Let_def write_packages_complete)
  have 4: "show_and_exit env clitool packages =
        ((clitool @ '' Git version '' @
            (if ver = [] then ''not found (not in Git repository?)'' else ver) @ [CHR 0x0A]) #
         map (\<lambda>p. p @ '' '' @ projr (require_version env p) @ [CHR 0x0A]) ps,
         Raise e)"
    if "chdir env ?u = None" "run_git env ?u = Inr stdout" "decode_ascii (strip stdout) = Inr ver"
      "packages = ps @ p # qs" "list_all (\<lambda>p. \<not> isl (require_version env p)) ps"
      "require_version env p = Inl e"
    using that by (simp add: show_and_exit_def Let_def write_packages_missing)
  from 0 1 a b c 2 3 4 show ?thesis by blast
qed

theorem show_and_exit_never_returns_witness:
  "show_and_exit env_no_repository ''./tool.py'' [''networkx''] =
     ([''./tool.py Git version not found (not in Git repository?)'' @ [CHR 0x0A],
       ''networkx 2.5'' @ [CHR 0x0A]], Exit 0) \<and>
   show_and_exit env_no_repository ''./tool.py'' [''networkx'', ''numpy''] =
     ([''./tool.py Git version not found (not in Git repository?)'' @ [CHR 0x0A],
       ''networkx 2.5'' @ [CHR 0x0A]], Raise (DistributionNotFound ''numpy'')) \<and>
   show_and_exit env_no_git ''./tool.py'' [''networkx''] = ([], Raise (OSError ENOENT))"
proof -
  have c: "chdir env_no_repository (parent (resolve env_no_repository (Path_of ''./tool.py''))) = None"
    by (simp add: env_no_repository_def)
  have g: "run_git env_no_repository (parent (resolve env_no_repository (Path_of ''./tool.py''))) =
      Inr [CHR 0x0A]"
    by (simp add: env_no_repository_def)
  have d: "decode_ascii (strip [CHR 0x0A]) = Inr []"
    by (simp add: decode_ascii_def strip_def is_space_def)
  have p: "list_all (\<lambda>p. \<not> isl (require_version env_no_repository p)) [''networkx'']"
    by (simp add: env_no_repository_def)
  have q: "require_version env_no_repository ''numpy'' = Inl (DistributionNotFound ''numpy'')"
    by (simp add: env_no_repository_def)
  have v: "projr (require_version env_no_repository ''networkx'') = ''2.5''"
    by (simp add: env_no_repository_def)
  have 1: "show_and_exit env_no_repository ''./tool.py'' [''networkx''] =
     ([''./tool.py Git version not found (not in Git repository?)'' @ [CHR 0x0A],
       ''networkx 2.5'' @ [CHR 0x0A]], Exit 0)"
    using show_and_exit_never_returns [of env_no_repository "''./tool.py''" "[''networkx'']"
        _ "[CHR 0x0A]" "[]"] c g d p
    by (simp add: v)
  have 2: "show_and_exit env_no_repository ''./tool.py'' [''networkx'', ''numpy''] =
     ([''./tool.py Git version not found (not in Git repository?)'' @ [CHR 0x0A],
       ''networkx 2.5'' @ [CHR 0x0A]], Raise (DistributionNotFound ''numpy''))"
    using show_and_exit_never_returns [of env_no_repository "''./tool.py''"
        "[''networkx'', ''numpy'']" "DistributionNotFound ''numpy''" "[CHR 0x0A]" "[]"
        "[''networkx'']" "''numpy''" "[]"] c g d p q
    by (simp add: v)
  have 3: "show_and_exit env_no_git ''./tool.py'' [''networkx''] = ([], Raise (OSError ENOENT))"
    using show_and_exit_never_returns [of env_no_git "''./tool.py''" "[''networkx'']"
        "OSError ENOENT"]
    by (simp add: env_no_git_def)
  from 1 2 3 show ?thesis by simp
qed

subsection \<open>Renaming\<close>

subsubsection \<open>Dictionaries\<close>

lemma map_fst_setitem:
  "map fst (setitem k v d) = (if k \<in> set (map fst d) then map fst d else map fst d @ [k])"
  by (induction d) (force simp: image_iff)+

lemma setitem_fresh: "k \<notin> set (map fst d) \<Longrightarrow> setitem k v d = d @ [(k, v)]"
  by (induction d) auto

lemma setitem_present:
  "k \<in> set (map fst d) \<Longrightarrow> distinct (map fst d) \<Longrightarrow>
   setitem k v d = map (\<lambda>(k', v'). (k', if k' = k then v else v')) d"
proof (induction d)
  case Nil
  then show ?case by simp
next
  case (Cons a d)
  obtain k' v' where a: "a = (k', v')" by (cases a)
  show ?case
  proof (cases "k' = k")
    case True
    with Cons.prems a have "k \<notin> set (map fst d)" by auto
    then have "map (\<lambda>(k', v'). (k', if k' = k then v else v')) d = d"
      by (induction d) auto
    with True a show ?thesis by simp
  next
    case False
    with Cons a show ?thesis by auto
  qed
qed

lemma contains_iff: "contains d k \<longleftrightarrow> k \<in> set (map fst d)"
  by (simp add: contains_def map_of_eq_None_iff)

lemma update_from_present:
  "distinct (map fst d) \<Longrightarrow> set (map fst kvs) \<subseteq> set (map fst d) \<Longrightarrow>
   update_from kvs d =
     map (\<lambda>(k, v). (k, case map_of (rev kvs) k of Some v' \<Rightarrow> v' | None \<Rightarrow> v)) d"
proof (induction kvs arbitrary: d)
  case Nil
  then show ?case by simp
next
  case (Cons a kvs)
  obtain k v where a: "a = (k, v)" by (cases a)
  from Cons.prems a have k: "k \<in> set (map fst d)" by simp
  have keys: "map fst (setitem k v d) = map fst d"
    using k by (simp add: map_fst_setitem)
  have "update_from (a # kvs) d = update_from kvs (setitem k v d)"
    by (simp add: a)
  also have "\<dots> = map (\<lambda>(k, v). (k, case map_of (rev kvs) k of Some v' \<Rightarrow> v' | None \<Rightarrow> v))
                     (setitem k v d)"
    using Cons.prems by (intro Cons.IH) (simp_all add: keys)
  also have "\<dots> = map (\<lambda>(k, v). (k, case map_of (rev (a # kvs)) k of Some v' \<Rightarrow> v' | None \<Rightarrow> v)) d"
    using Cons.prems(1) k
    by (simp add: setitem_present a map_add_def case_prod_unfold split: option.splits)
  finally show ?case .
qed

lemma map_fst_update_from:
  "distinct (map fst d) \<Longrightarrow> set (map fst kvs) \<subseteq> set (map fst d) \<Longrightarrow>
   map fst (update_from kvs d) = map fst d"
  by (simp add: update_from_present case_prod_unfold comp_def)

lemma update_from_entries:
  assumes "distinct (map fst d)" "set (map fst kvs) = set (map fst d)"
  shows "set (update_from kvs d) \<subseteq> set kvs"
proof
  fix x
  assume "x \<in> set (update_from kvs d)"
  with assms obtain k v where kv: "(k, v) \<in> set d"
    and x: "x = (k, case map_of (rev kvs) k of Some v' \<Rightarrow> v' | None \<Rightarrow> v)"
    by (auto simp: update_from_present)
  from kv assms(2) have "k \<in> set (map fst (rev kvs))"
    by (force simp: image_iff)
  then obtain v' where v': "map_of (rev kvs) k = Some v'"
    by (metis map_of_eq_None_iff not_Some_eq set_map)
  then have "(k, v') \<in> set kvs"
    by (auto dest: map_of_SomeD)
  with x v' show "x \<in> set kvs" by simp
qed

lemma update_from_all:
  assumes "distinct (map fst kvs)"
  shows "update_from kvs (map (\<lambda>k. (k, e)) (map fst kvs)) = kvs"
proof -
  have "update_from kvs (map (\<lambda>k. (k, e)) (map fst kvs)) =
      map (\<lambda>(k, v). (k, case map_of (rev kvs) k of Some v' \<Rightarrow> v' | None \<Rightarrow> v))
        (map (\<lambda>k. (k, e)) (map fst kvs))"
    using assms by (intro update_from_present) (simp_all add: comp_def)
  also have "\<dots> = map (\<lambda>x. x) kvs"
    unfolding map_map
  proof (rule map_cong [OF refl])
    fix x
    assume x: "x \<in> set kvs"
    obtain k v where kv: "x = (k, v)" by (cases x)
    from assms have "distinct (map fst (rev kvs))"
      by (simp add: rev_map [symmetric])
    with x kv have "map_of (rev kvs) k = Some v"
      by simp
    with kv show "((\<lambda>(k, v). (k, case map_of (rev kvs) k of Some v' \<Rightarrow> v' | None \<Rightarrow> v)) \<circ>
        ((\<lambda>k. (k, e)) \<circ> fst)) x = x"
      by simp
  qed
  finally show ?thesis by simp
qed

subsubsection \<open>Building a graph\<close>

lemma add_node_present: "n \<in> set (map fst (G_adj H)) \<Longrightarrow> add_node n H = H"
  by (simp add: add_node_def contains_iff)

lemma add_node_fresh:
  assumes "n \<notin> set (map fst (G_adj H))" "keys_agree H"
  shows "G_node (add_node n H) = G_node H @ [(n, empty_attribute)] \<and>
         G_adj (add_node n H) = G_adj H @ [(n, [])]"
proof -
  from assms(2) have "map fst (G_node H) = map fst (G_adj H)"
    by (simp add: keys_agree_def)
  with assms(1) have "n \<notin> set (map fst (G_node H))"
    by metis
  with assms(1) show ?thesis
    by (simp add: add_node_def contains_iff setitem_fresh)
qed

lemma add_node_keys:
  assumes "keys_agree H"
  shows "keys_agree (add_node n H) \<and>
         set (map fst (G_node (add_node n H))) = insert n (set (map fst (G_node H)))"
proof (cases "n \<in> set (map fst (G_adj H))")
  case True
  with assms show ?thesis
    by (auto simp: add_node_present keys_agree_def)
next
  case False
  with assms add_node_fresh [OF False assms] show ?thesis
    by (auto simp: keys_agree_def)
qed

lemma add_nodes_from_keys:
  "keys_agree H \<Longrightarrow>
   keys_agree (add_nodes_from ns H) \<and>
   set (map fst (G_node (add_nodes_from ns H))) = set (map fst (G_node H)) \<union> set ns"
proof (induction ns arbitrary: H)
  case Nil
  then show ?case by simp
next
  case (Cons n ns)
  from add_node_keys [OF Cons.prems, of n] Cons.IH [of "add_node n H"]
  show ?case by auto
qed

lemma add_nodes_from_distinct:
  "keys_agree H \<Longrightarrow> distinct ns \<Longrightarrow> set ns \<inter> set (map fst (G_node H)) = {} \<Longrightarrow>
   G_node (add_nodes_from ns H) = G_node H @ map (\<lambda>k. (k, empty_attribute)) ns \<and>
   G_adj (add_nodes_from ns H) = G_adj H @ map (\<lambda>k. (k, [])) ns"
proof (induction ns arbitrary: H)
  case Nil
  then show ?case by simp
next
  case (Cons n ns)
  from Cons.prems have fresh: "n \<notin> set (map fst (G_adj H))"
    by (auto simp: keys_agree_def)
  note f = add_node_fresh [OF fresh Cons.prems(1)]
  note k = add_node_keys [OF Cons.prems(1), of n]
  have "G_node (add_nodes_from ns (add_node n H)) =
          G_node (add_node n H) @ map (\<lambda>k. (k, empty_attribute)) ns \<and>
        G_adj (add_nodes_from ns (add_node n H)) =
          G_adj (add_node n H) @ map (\<lambda>k. (k, [])) ns"
    using Cons.prems k by (intro Cons.IH) auto
  with f show ?case by simp
qed

lemma keys_agree_empty: "keys_agree \<lparr>G_node = [], G_adj = []\<rparr>"
  by (simp add: keys_agree_def)

lemma add_edge_present:
  assumes "keys_agree H" "u \<in> set (map fst (G_node H))" "v \<in> set (map fst (G_node H))"
  shows "G_node (add_edge (u, v, dd) H) = G_node H"
    and "G_adj (add_edge (u, v, dd) H) =
           map (\<lambda>(k, nbrs). (k, if k = u then add_nbr (v, dd) nbrs else nbrs)) (G_adj H)"
proof -
  from assms have uv: "u \<in> set (map fst (G_adj H))" "v \<in> set (map fst (G_adj H))"
    and d: "distinct (map fst (G_adj H))"
    by (simp_all add: keys_agree_def)
  then have H': "add_node v (add_node u H) = H"
    by (simp add: add_node_present)
  show "G_node (add_edge (u, v, dd) H) = G_node H"
    by (simp add: add_edge_def H' Let_def)
  from uv obtain nbrs where nbrs: "map_of (G_adj H) u = Some nbrs"
    by (metis map_of_eq_None_iff not_Some_eq set_map)
  have "G_adj (add_edge (u, v, dd) H) = setitem u (add_nbr (v, dd) nbrs) (G_adj H)"
    by (simp add: add_edge_def H' Let_def nbrs add_nbr_def)
  also have "\<dots> = map (\<lambda>(k', v'). (k', if k' = u then add_nbr (v, dd) nbrs else v')) (G_adj H)"
    using uv d by (simp add: setitem_present)
  also have "\<dots> = map (\<lambda>(k, nbrs). (k, if k = u then add_nbr (v, dd) nbrs else nbrs)) (G_adj H)"
  proof (rule map_cong [OF refl])
    fix x
    assume x: "x \<in> set (G_adj H)"
    obtain k nb where kn: "x = (k, nb)" by (cases x)
    from x kn d nbrs have "k = u \<Longrightarrow> nb = nbrs"
      by simp
    with kn show "(case x of (k', v') \<Rightarrow> (k', if k' = u then add_nbr (v, dd) nbrs else v')) =
        (case x of (k, nbrs) \<Rightarrow> (k, if k = u then add_nbr (v, dd) nbrs else nbrs))"
      by auto
  qed
  finally show "G_adj (add_edge (u, v, dd) H) =
      map (\<lambda>(k, nbrs). (k, if k = u then add_nbr (v, dd) nbrs else nbrs)) (G_adj H)" .
qed

lemma add_edge_keys_agree:
  assumes "keys_agree H" "u \<in> set (map fst (G_node H))" "v \<in> set (map fst (G_node H))"
  shows "keys_agree (add_edge (u, v, dd) H)"
  using assms add_edge_present [OF assms, of dd]
  by (simp add: keys_agree_def case_prod_unfold comp_def)

lemma add_edges_from_present:
  "keys_agree H \<Longrightarrow>
   list_all (\<lambda>(u, v, dd). u \<in> set (map fst (G_node H)) \<and> v \<in> set (map fst (G_node H))) es \<Longrightarrow>
   G_node (add_edges_from es H) = G_node H \<and>
   G_adj (add_edges_from es H) =
     map (\<lambda>(k, nbrs). (k, fold add_nbr (map snd (filter (\<lambda>e. fst e = k) es)) nbrs)) (G_adj H)"
proof (induction es arbitrary: H)
  case Nil
  then show ?case by (simp add: case_prod_unfold)
next
  case (Cons e es)
  obtain u v dd where e: "e = (u, v, dd)" by (cases e)
  from Cons.prems e have uv: "u \<in> set (map fst (G_node H))" "v \<in> set (map fst (G_node H))"
    by simp_all
  note p = add_edge_present [OF Cons.prems(1) uv, of dd]
  note k = add_edge_keys_agree [OF Cons.prems(1) uv, of dd]
  have "G_node (add_edges_from es (add_edge e H)) = G_node (add_edge e H) \<and>
     G_adj (add_edges_from es (add_edge e H)) =
       map (\<lambda>(k, nbrs). (k, fold add_nbr (map snd (filter (\<lambda>e. fst e = k) es)) nbrs))
         (G_adj (add_edge e H))"
    using Cons.prems k p by (intro Cons.IH) (simp_all add: e)
  with p show ?case
    by (simp add: e case_prod_unfold comp_def)
qed

subsubsection \<open>relabel_nodes\<close>

lemma edges_ends:
  assumes "wf_graph G" "(u, v, d) \<in> set (edges G)"
  shows "u \<in> set (map fst (G_node G))" "v \<in> set (map fst (G_node G))"
proof -
  from assms(2) obtain nbrs where n: "(u, nbrs) \<in> set (G_adj G)" and v: "(v, d) \<in> set nbrs"
    by (auto simp: edges_def)
  from n have "u \<in> set (map fst (G_adj G))" by force
  with assms(1) show "u \<in> set (map fst (G_node G))"
    by (simp add: wf_graph_def)
  from assms(1) n have "list_all (\<lambda>(v, d). v \<in> set (map fst (G_node G))) nbrs"
    by (auto simp: wf_graph_def list_all_iff)
  with v show "v \<in> set (map fst (G_node G))"
    by (auto simp: list_all_iff)
qed

lemma relabel_nodes_parts:
  fixes m :: "string \<rightharpoonup> string"
  assumes "wf_graph G"
  defines "ks \<equiv> map (\<lambda>(n, d). mapping_get m n) (G_node G)"
  defines "H0 \<equiv> add_nodes_from ks \<lparr>G_node = [], G_adj = []\<rparr>"
  defines "pairs \<equiv> map (\<lambda>(n, d). (mapping_get m n, d)) (G_node G)"
  defines "new_edges \<equiv> map (\<lambda>(n1, n2, d). (mapping_get m n1, mapping_get m n2, d)) (edges G)"
  shows "keys_agree H0"
    and "set (map fst (G_node H0)) = set ks"
    and "G_node (relabel_nodes G m) = update_from pairs (G_node H0)"
    and "map fst (G_node (relabel_nodes G m)) = map fst (G_node H0)"
    and "G_adj (relabel_nodes G m) =
           map (\<lambda>(k, nbrs). (k, fold add_nbr (map snd (filter (\<lambda>e. fst e = k) new_edges)) nbrs))
             (G_adj H0)"
proof -
  let ?H1 = "H0\<lparr>G_node := update_from pairs (G_node H0)\<rparr>"
  have r: "relabel_nodes G m = add_edges_from new_edges ?H1"
    by (simp add: relabel_nodes_def Let_def H0_def ks_def pairs_def new_edges_def)
  from add_nodes_from_keys [OF keys_agree_empty, of ks]
  show k0: "keys_agree H0" and s0: "set (map fst (G_node H0)) = set ks"
    by (simp_all add: H0_def)
  have fp: "map fst pairs = ks"
    by (simp add: pairs_def ks_def case_prod_unfold comp_def)
  from k0 have d0: "distinct (map fst (G_node H0))"
    by (simp add: keys_agree_def)
  have m1: "map fst (update_from pairs (G_node H0)) = map fst (G_node H0)"
    using d0 s0 by (intro map_fst_update_from) (simp_all add: fp)
  with k0 have k1: "keys_agree ?H1"
    by (simp add: keys_agree_def)
  have ends: "list_all (\<lambda>(u, v, dd). u \<in> set (map fst (G_node ?H1)) \<and>
                  v \<in> set (map fst (G_node ?H1))) new_edges"
    unfolding list_all_iff
  proof
    fix e
    assume "e \<in> set new_edges"
    then obtain n1 n2 d where e: "e = (mapping_get m n1, mapping_get m n2, d)"
      and g: "(n1, n2, d) \<in> set (edges G)"
      by (auto simp: new_edges_def)
    from edges_ends [OF assms(1) g]
    have "mapping_get m n1 \<in> set ks" "mapping_get m n2 \<in> set ks"
      by (force simp: ks_def)+
    with e show "case e of (u, v, dd) \<Rightarrow> u \<in> set (map fst (G_node ?H1)) \<and>
                  v \<in> set (map fst (G_node ?H1))"
      by (simp add: m1 s0 del: set_map)
  qed
  from add_edges_from_present [OF k1 ends]
  show "G_node (relabel_nodes G m) = update_from pairs (G_node H0)"
    and "G_adj (relabel_nodes G m) =
           map (\<lambda>(k, nbrs). (k, fold add_nbr (map snd (filter (\<lambda>e. fst e = k) new_edges)) nbrs))
             (G_adj H0)"
    by (simp_all add: r)
  then show "map fst (G_node (relabel_nodes G m)) = map fst (G_node H0)"
    by (simp add: m1)
qed

lemma relabel_nodes_entries:
  assumes "wf_graph G"
  shows "set (G_node (relabel_nodes G m)) \<subseteq> (\<lambda>(n, d). (mapping_get m n, d)) ` set (G_node G)"
    and "set (map fst (G_node (relabel_nodes G m))) =
           mapping_get m ` set (map fst (G_node G))"
proof -
  note p = relabel_nodes_parts [OF assms, where m = m]
  let ?ks = "map (\<lambda>(n, d). mapping_get m n) (G_node G)"
  let ?H0 = "add_nodes_from ?ks \<lparr>G_node = [], G_adj = []\<rparr>"
  let ?pairs = "map (\<lambda>(n, d). (mapping_get m n, d)) (G_node G)"
  have fp: "map fst ?pairs = ?ks"
    by (simp add: case_prod_unfold comp_def)
  from p(1) have d0: "distinct (map fst (G_node ?H0))"
    by (simp add: keys_agree_def)
  have "set (update_from ?pairs (G_node ?H0)) \<subseteq> set ?pairs"
    using d0 p(2) by (intro update_from_entries) (simp_all only: fp)
  with p(3) show "set (G_node (relabel_nodes G m)) \<subseteq>
      (\<lambda>(n, d). (mapping_get m n, d)) ` set (G_node G)"
    by simp
  have "set (map fst (G_node (relabel_nodes G m))) = set ?ks"
    using p(4) p(2) by simp
  also have "\<dots> = mapping_get m ` set (map fst (G_node G))"
    by (force simp: image_iff)
  finally show "set (map fst (G_node (relabel_nodes G m))) =
      mapping_get m ` set (map fst (G_node G))" .
qed

lemma relabel_nodes_distinct:
  assumes "wf_graph G" "distinct (map (\<lambda>(n, d). mapping_get m n) (G_node G))"
  shows "G_node (relabel_nodes G m) = map (\<lambda>(n, d). (mapping_get m n, d)) (G_node G)"
proof -
  note p = relabel_nodes_parts [OF assms(1), where m = m]
  let ?ks = "map (\<lambda>(n, d). mapping_get m n) (G_node G)"
  let ?pairs = "map (\<lambda>(n, d). (mapping_get m n, d)) (G_node G)"
  have fp: "map fst ?pairs = ?ks"
    by (simp add: case_prod_unfold comp_def)
  have "G_node (add_nodes_from ?ks \<lparr>G_node = [], G_adj = []\<rparr>) =
      map (\<lambda>k. (k, empty_attribute)) ?ks"
    using add_nodes_from_distinct [OF keys_agree_empty assms(2)] by simp
  with p(3) have "G_node (relabel_nodes G m) =
      update_from ?pairs (map (\<lambda>k. (k, empty_attribute)) (map fst ?pairs))"
    by (simp only: fp)
  also have "\<dots> = ?pairs"
    using assms(2) by (intro update_from_all) (simp only: fp)
  finally show ?thesis .
qed

subsubsection \<open>The loop of rename_nodes\<close>

lemma type_append_name: "Node.type (append_name a s h b) = Node.type (h b)"
  by (simp add: append_name_def)

lemma is_input_append_name: "is_input (append_name a s h) nd = is_input h nd"
  by (simp add: is_input_def type_append_name split: option.splits)



lemma rename_loop_Cons:
  "node nd0 = Some a0 \<Longrightarrow>
   rename_loop s ii ((k0, nd0) # xs) m h =
     (if ii \<and> Node.type (h a0) = ''input'' then rename_loop s ii xs m h
      else rename_loop s ii xs (m(k0 \<mapsto> k0 @ s)) (append_name a0 s h))"
  "node nd0 = None \<Longrightarrow> rename_loop s ii ((k0, nd0) # xs) m h = (Inl (KeyError ''node''), h)"
  by (simp_all add: getitem_node_def)


lemma rename_loop_mapping:
  assumes "list_all (\<lambda>(k, nd). node nd \<noteq> None) xs" "distinct (map fst xs)"
  shows "\<exists>m' h'. rename_loop s ii xs m h = (Inr m', h') \<and>
           (\<forall>k. m' k = (case map_of xs k of
                           Some nd \<Rightarrow> if ii \<and> is_input h nd then m k else Some (k @ s)
                         | None \<Rightarrow> m k))"
  using assms
proof (induction xs arbitrary: m h)
  case Nil
  then show ?case by simp
next
  case (Cons x xs)
  obtain k0 nd0 where x: "x = (k0, nd0)" by (cases x)
  from Cons.prems x obtain a0 where a0: "node nd0 = Some a0" by auto
  from Cons.prems x have fresh: "map_of xs k0 = None"
    by (simp add: map_of_eq_None_iff)
  from Cons.prems have p: "list_all (\<lambda>(k, nd). node nd \<noteq> None) xs" "distinct (map fst xs)"
    by simp_all
  show ?case
  proof (cases "ii \<and> is_input h nd0")
    case True
    from Cons.IH [OF p, of m h] obtain m' h' where
      r: "rename_loop s ii xs m h = (Inr m', h')"
      and m': "\<forall>k. m' k = (case map_of xs k of
                           Some nd \<Rightarrow> if ii \<and> is_input h nd then m k else Some (k @ s)
                         | None \<Rightarrow> m k)"
      by blast
    from True a0 r have "rename_loop s ii (x # xs) m h = (Inr m', h')"
      by (simp add: x getitem_node_def is_input_def)
    moreover from m' fresh True have "\<forall>k. m' k = (case map_of (x # xs) k of
                           Some nd \<Rightarrow> if ii \<and> is_input h nd then m k else Some (k @ s)
                         | None \<Rightarrow> m k)"
      by (simp add: x)
    ultimately show ?thesis by blast
  next
    case False
    let ?m1 = "m(k0 \<mapsto> k0 @ s)"
    let ?h1 = "append_name a0 s h"
    from Cons.IH [OF p, of ?m1 ?h1] obtain m' h' where
      r: "rename_loop s ii xs ?m1 ?h1 = (Inr m', h')"
      and m': "\<forall>k. m' k = (case map_of xs k of
                           Some nd \<Rightarrow> if ii \<and> is_input ?h1 nd then ?m1 k else Some (k @ s)
                         | None \<Rightarrow> ?m1 k)"
      by blast
    from False a0 r have "rename_loop s ii (x # xs) m h = (Inr m', h')"
      by (auto simp: x getitem_node_def is_input_def)
    moreover have "\<forall>k. m' k = (case map_of (x # xs) k of
                           Some nd \<Rightarrow> if ii \<and> is_input h nd then m k else Some (k @ s)
                         | None \<Rightarrow> m k)"
    proof
      fix k
      show "m' k = (case map_of (x # xs) k of
                           Some nd \<Rightarrow> if ii \<and> is_input h nd then m k else Some (k @ s)
                         | None \<Rightarrow> m k)"
      proof (cases "k = k0")
        case True
        with m' [rule_format, of k0] fresh False show ?thesis
          by (auto simp: x)
      next
        case ne: False
        with m' [rule_format, of k] show ?thesis
          by (auto simp: x is_input_append_name split: option.splits)
      qed
    qed
    ultimately show ?thesis by blast
  qed
qed

lemma rename_loop_heap:
  assumes "list_all (\<lambda>(k, nd). node nd \<noteq> None) xs" "distinct (map (\<lambda>(k, nd). node nd) xs)"
  shows "snd (rename_loop s ii xs m h) a =
           (if Some a \<in> set (map (\<lambda>(k, nd). node nd) xs) \<and>
               \<not> (ii \<and> Node.type (h a) = ''input'')
            then (h a)\<lparr>Node.name := Node.name (h a) @ s\<rparr> else h a)"
  using assms
proof (induction xs arbitrary: m h)
  case Nil
  then show ?case by simp
next
  case (Cons x xs)
  obtain k0 nd0 where x: "x = (k0, nd0)" by (cases x)
  from Cons.prems x obtain a0 where a0: "node nd0 = Some a0" by auto
  from Cons.prems x a0 have fresh: "Some a0 \<notin> set (map (\<lambda>(k, nd). node nd) xs)"
    by simp
  from Cons.prems have p: "list_all (\<lambda>(k, nd). node nd \<noteq> None) xs"
    "distinct (map (\<lambda>(k, nd). node nd) xs)"
    by simp_all
  have mem: "Some a \<in> set (map (\<lambda>(k, nd). node nd) (x # xs)) \<longleftrightarrow>
      a = a0 \<or> Some a \<in> set (map (\<lambda>(k, nd). node nd) xs)"
    using a0 by (auto simp: x)
  show ?case
  proof (cases "ii \<and> Node.type (h a0) = ''input''")
    case True
    have r: "rename_loop s ii (x # xs) m h = rename_loop s ii xs m h"
      unfolding x rename_loop_Cons(1) [OF a0] if_P [OF True] ..
    show ?thesis
      unfolding r Cons.IH [OF p] mem using True fresh by auto
  next
    case False
    have r: "rename_loop s ii (x # xs) m h =
        rename_loop s ii xs (m(k0 \<mapsto> k0 @ s)) (append_name a0 s h)"
      unfolding x rename_loop_Cons(1) [OF a0] if_not_P [OF False] ..
    show ?thesis
    proof (cases "a = a0")
      case True
      with False fresh show ?thesis
        unfolding r Cons.IH [OF p] mem type_append_name
        by (simp add: append_name_def)
    next
      case ne: False
      then have "append_name a0 s h a = h a"
        by (simp add: append_name_def)
      with ne show ?thesis
        unfolding r Cons.IH [OF p] mem type_append_name by auto
    qed
  qed
qed

subsubsection \<open>rename_nodes\<close>

lemma relabel_key_node:
  "distinct (map fst (G_node (graph w))) \<Longrightarrow> (k, nd) \<in> set (G_node (graph w)) \<Longrightarrow>
   relabel_key w s ii k = key_after s ii (heap w) (k, nd)"
  by (simp add: relabel_key_def)

lemma rename_nodes_result:
  assumes "carries_record w" "distinct (map fst (G_node (graph w)))"
  shows "\<exists>m' h'. rename_loop s ii (G_node (graph w)) Map.empty (heap w) = (Inr m', h') \<and>
           mapping_get m' = relabel_key w s ii \<and>
           rename_nodes w s ii = (Inr (relabel_nodes (graph w) m'), w\<lparr>heap := h'\<rparr>)"
proof -
  from assms have "list_all (\<lambda>(k, nd). node nd \<noteq> None) (G_node (graph w))"
    by (simp add: carries_record_def)
  from rename_loop_mapping [OF this assms(2), of s ii Map.empty "heap w"]
  obtain m' h' where r: "rename_loop s ii (G_node (graph w)) Map.empty (heap w) = (Inr m', h')"
    and m': "\<And>k. m' k = (case map_of (G_node (graph w)) k of
                           Some nd \<Rightarrow> if ii \<and> is_input (heap w) nd then None else Some (k @ s)
                         | None \<Rightarrow> None)"
    by auto
  have "mapping_get m' k = relabel_key w s ii k" for k
    by (simp add: mapping_get_def m' relabel_key_def key_after_def split: option.splits)
  then have "mapping_get m' = relabel_key w s ii"
    by (rule ext)
  moreover from r have "rename_nodes w s ii = (Inr (relabel_nodes (graph w) m'), w\<lparr>heap := h'\<rparr>)"
    by (simp add: rename_nodes_def)
  ultimately show ?thesis
    using r by blast
qed

lemma rename_nodes_names:
  assumes "carries_record w" "no_shared_record w" "(k, nd) \<in> set (G_node (graph w))"
    "node nd = Some a"
  shows "Node.name (heap (snd (rename_nodes w s ii)) a) =
           (if ii \<and> is_input (heap w) nd then Node.name (heap w a)
            else Node.name (heap w a) @ s)"
proof -
  from assms(1) have c: "list_all (\<lambda>(k, nd). node nd \<noteq> None) (G_node (graph w))"
    by (simp add: carries_record_def)
  from assms(2) have d: "distinct (map (\<lambda>(k, nd). node nd) (G_node (graph w)))"
    by (simp add: no_shared_record_def)
  have "heap (snd (rename_nodes w s ii)) =
      snd (rename_loop s ii (G_node (graph w)) Map.empty (heap w))"
    by (simp add: rename_nodes_def split: prod.splits sum.splits)
  moreover from assms(3,4) have "Some a \<in> set (map (\<lambda>(k, nd). node nd) (G_node (graph w)))"
    by force
  ultimately show ?thesis
    using assms(4) by (simp add: rename_loop_heap [OF c d] is_input_def)
qed

lemma lockstep_carries_record: "lockstep (graph w) (heap w) \<Longrightarrow> carries_record w"
  by (auto simp: lockstep_def carries_record_def list_all_iff split: option.splits)

lemma lockstep_no_shared_record:
  assumes "lockstep (graph w) (heap w)" "distinct (map fst (G_node (graph w)))"
  shows "no_shared_record w"
proof -
  let ?g = "\<lambda>x. Node.name (heap w (the x))"
  have "map fst (G_node (graph w)) = map ?g (map (\<lambda>(k, nd). node nd) (G_node (graph w)))"
    unfolding map_map
  proof (rule map_cong [OF refl])
    fix x
    assume "x \<in> set (G_node (graph w))"
    with assms(1) show "fst x = (?g \<circ> (\<lambda>(k, nd). node nd)) x"
      by (auto simp: lockstep_def list_all_iff split: option.splits)
  qed
  with assms(2) have "distinct (map ?g (map (\<lambda>(k, nd). node nd) (G_node (graph w))))"
    by simp
  then show ?thesis
    unfolding no_shared_record_def distinct_map [of ?g] by (rule conjunct1)
qed

lemma keys_after_distinct_all:
  assumes "distinct (map fst (G_node (graph w)))"
  shows "keys_after_distinct w s False"
proof -
  have "map (key_after s False (heap w)) (G_node (graph w)) =
      map (\<lambda>k. k @ s) (map fst (G_node (graph w)))"
    by (simp add: key_after_def case_prod_unfold comp_def)
  moreover have "inj_on (\<lambda>k. k @ s) (set (map fst (G_node (graph w))))"
    by (rule inj_onI) simp
  ultimately show ?thesis
    using assms unfolding keys_after_distinct_def by (simp only: distinct_map)
qed

lemma relabel_keys:
  assumes "distinct (map fst (G_node (graph w)))"
  shows "map (\<lambda>(n, d). (relabel_key w s ii n, d)) (G_node (graph w)) =
         map (\<lambda>(k, nd). (key_after s ii (heap w) (k, nd), nd)) (G_node (graph w))"
    and "map (\<lambda>(n, d). relabel_key w s ii n) (G_node (graph w)) =
         map (key_after s ii (heap w)) (G_node (graph w))"
  using relabel_key_node [OF assms]
  by (auto intro!: map_cong [OF refl])

lemma rename_nodes_graph:
  assumes "wf_graph (graph w)" "carries_record w" "keys_after_distinct w s ii"
  shows "\<exists>H. fst (rename_nodes w s ii) = Inr H \<and>
           G_node H = map (\<lambda>(k, nd). (key_after s ii (heap w) (k, nd), nd)) (G_node (graph w))"
proof -
  from assms(1) have d: "distinct (map fst (G_node (graph w)))"
    by (simp add: wf_graph_def)
  from rename_nodes_result [OF assms(2) d, of s ii] obtain m' h' where
    m': "mapping_get m' = relabel_key w s ii"
    and r: "rename_nodes w s ii = (Inr (relabel_nodes (graph w) m'), w\<lparr>heap := h'\<rparr>)"
    by blast
  from assms(3) have "distinct (map (\<lambda>(n, d). mapping_get m' n) (G_node (graph w)))"
    by (simp only: m' relabel_keys(2) [OF d] keys_after_distinct_def)
  from relabel_nodes_distinct [OF assms(1) this]
  have "G_node (relabel_nodes (graph w) m') =
      map (\<lambda>(k, nd). (key_after s ii (heap w) (k, nd), nd)) (G_node (graph w))"
    by (simp only: m' relabel_keys(1) [OF d])
  with r show ?thesis by simp
qed

text \<open>Two ways in which the renaming is not as stated. In the first world every node
  carries a record, and the key of the gate \<open>a\<close> followed by the suffix is the key of the
  input node \<open>a_s\<close>: the graph that is returned has one node, \<open>a_s\<close>, with the record of the
  input node, and no node with the record of the gate. In the second world the two
  nodes carry the same record, whose name is \<open>x\<close>: its name gets the suffix twice.\<close>

theorem rename_nodes_not_selective:
  "wf_graph (graph collision_world) \<and> carries_record collision_world \<and>
   fst (rename_nodes collision_world ''_s'' True) =
     Inr \<lparr>G_node = [(''a_s'', nd_of 1)], G_adj = [(''a_s'', [(''a_s'', Map.empty)])]\<rparr> \<and>
   wf_graph (graph shared_world) \<and> carries_record shared_world \<and>
   Node.name (heap shared_world 0) = ''x'' \<and>
   Node.name (heap (snd (rename_nodes shared_world ''_s'' False)) 0) = ''x_s_s''"
proof -
  have "wf_graph (graph collision_world)" "carries_record collision_world"
    "wf_graph (graph shared_world)" "carries_record shared_world"
    "Node.name (heap shared_world 0) = ''x''"
    by (simp_all add: wf_graph_def carries_record_def collision_world_def shared_world_def
          nd_of_def mk_node_def)
  moreover have "fst (rename_nodes collision_world ''_s'' True) =
     Inr \<lparr>G_node = [(''a_s'', nd_of 1)], G_adj = [(''a_s'', [(''a_s'', Map.empty)])]\<rparr>"
    by (simp add: rename_nodes_def collision_world_def nd_of_def mk_node_def getitem_node_def
          append_name_def relabel_nodes_def mapping_get_def add_node_def contains_def
          edges_def add_edge_def Let_def)
  moreover have "Node.name (heap (snd (rename_nodes shared_world ''_s'' False)) 0) = ''x_s_s''"
    by (simp add: rename_nodes_def shared_world_def nd_of_def mk_node_def getitem_node_def
          append_name_def)
  ultimately show ?thesis by blast
qed

text \<open>
  Claim C1, amended. For a well-formed graph in which every node carries a record, no two
  nodes carry the same record and, when inputs are ignored, the keys that the nodes get
  are distinct (no key of a renamed node, followed by the suffix, is the key of an input
  node), \<open>rename_nodes\<close> returns a graph with the nodes of the given graph, in their order
  and each with its attribute dictionary: with \<open>ignore_inputs\<close>, a node whose record has
  the type \<open>"input"\<close> under its old key and with the name of its record unchanged, and
  every other node under its old key followed by the suffix and with the name of its
  record followed by the suffix; without \<open>ignore_inputs\<close>, every node in the second way.
\<close>

theorem rename_nodes_selective:
  assumes "wf_graph (graph w)" "carries_record w" "no_shared_record w"
    "ignore_inputs \<longrightarrow> keys_after_distinct w suffix ignore_inputs"
  shows "rename_selective w suffix ignore_inputs"
proof -
  from assms(1) have d: "distinct (map fst (G_node (graph w)))"
    by (simp add: wf_graph_def)
  from assms(4) keys_after_distinct_all [OF d, of suffix]
  have k: "keys_after_distinct w suffix ignore_inputs"
    by (cases ignore_inputs) simp_all
  from rename_nodes_graph [OF assms(1,2) k] obtain H where
    H: "fst (rename_nodes w suffix ignore_inputs) = Inr H"
    and n: "G_node H = map (\<lambda>(k, nd). (key_after suffix ignore_inputs (heap w) (k, nd), nd))
                         (G_node (graph w))"
    by blast
  obtain w' where w': "rename_nodes w suffix ignore_inputs = (Inr H, w')"
    using H by (cases "rename_nodes w suffix ignore_inputs") simp
  have names: "list_all (\<lambda>(k, nd).
              case node nd of
                None \<Rightarrow> False
              | Some a \<Rightarrow>
                  Node.name (heap w' a) =
                    (if ignore_inputs \<and> is_input (heap w) nd then Node.name (heap w a)
                     else Node.name (heap w a) @ suffix))
            (G_node (graph w))"
    unfolding list_all_iff
  proof
    fix x
    assume x: "x \<in> set (G_node (graph w))"
    obtain k nd where kn: "x = (k, nd)" by (cases x)
    from assms(2) x kn obtain a where a: "node nd = Some a"
      by (auto simp: carries_record_def list_all_iff)
    from rename_nodes_names [OF assms(2,3) x [unfolded kn] a, of suffix ignore_inputs]
    show "case x of (k, nd) \<Rightarrow>
              case node nd of
                None \<Rightarrow> False
              | Some a \<Rightarrow>
                  Node.name (heap w' a) =
                    (if ignore_inputs \<and> is_input (heap w) nd then Node.name (heap w a)
                     else Node.name (heap w a) @ suffix)"
      by (simp add: kn a w')
  qed
  show ?thesis
    unfolding rename_selective_def w' using n names by simp
qed

theorem rename_nodes_selective_witness:
  "wf_graph (graph netlist_world) \<and> carries_record netlist_world \<and>
   no_shared_record netlist_world \<and> keys_after_distinct netlist_world ''_s'' True \<and>
   rename_selective netlist_world ''_s'' True \<and>
   rename_selective netlist_world ''_s'' False \<and>
   map (\<lambda>(k, nd). (k, node nd))
     (G_node (projr (fst (rename_nodes netlist_world ''_s'' True)))) =
     [(''in0'', Some 0), (''g0_s'', Some 1), (''r0_s'', Some 2)] \<and>
   map (\<lambda>a. Node.name (heap (snd (rename_nodes netlist_world ''_s'' True)) a)) [0, 1, 2] =
     [''in0'', ''g0_s'', ''r0_s''] \<and>
   map (\<lambda>(k, nd). (k, node nd))
     (G_node (projr (fst (rename_nodes netlist_world ''_s'' False)))) =
     [(''in0_s'', Some 0), (''g0_s'', Some 1), (''r0_s'', Some 2)] \<and>
   map (\<lambda>a. Node.name (heap (snd (rename_nodes netlist_world ''_s'' False)) a)) [0, 1, 2] =
     [''in0_s'', ''g0_s'', ''r0_s'']"
proof -
  have a: "wf_graph (graph netlist_world)" "carries_record netlist_world"
    "no_shared_record netlist_world" "keys_after_distinct netlist_world ''_s'' True"
    by code_simp+
  have v: "map (\<lambda>(k, nd). (k, node nd))
     (G_node (projr (fst (rename_nodes netlist_world ''_s'' True)))) =
     [(''in0'', Some 0), (''g0_s'', Some 1), (''r0_s'', Some 2)]"
    "map (\<lambda>a. Node.name (heap (snd (rename_nodes netlist_world ''_s'' True)) a)) [0, 1, 2] =
     [''in0'', ''g0_s'', ''r0_s'']"
    "map (\<lambda>(k, nd). (k, node nd))
     (G_node (projr (fst (rename_nodes netlist_world ''_s'' False)))) =
     [(''in0_s'', Some 0), (''g0_s'', Some 1), (''r0_s'', Some 2)]"
    "map (\<lambda>a. Node.name (heap (snd (rename_nodes netlist_world ''_s'' False)) a)) [0, 1, 2] =
     [''in0_s'', ''g0_s'', ''r0_s'']"
    by code_simp+
  from a rename_nodes_selective [of netlist_world True "''_s''"]
    rename_nodes_selective [of netlist_world False "''_s''"]
  have "rename_selective netlist_world ''_s'' True" "rename_selective netlist_world ''_s'' False"
    by simp_all
  with a v show ?thesis by blast
qed

text \<open>
  Claim C8. For a well-formed graph in which the key of every node is the name of the
  record the node carries, \<open>rename_nodes\<close> returns a graph, and in it the key of every
  node is again the name of the record the node carries. The keys of that graph are the
  keys that the nodes of the given graph get, and the record of every node of the given
  graph is named as the key the node gets: its old key for an input node that is ignored,
  its old key followed by the suffix otherwise.
\<close>

theorem rename_nodes_lockstep:
  assumes "wf_graph (graph w)" "lockstep (graph w) (heap w)"
  shows "\<exists>H w'. rename_nodes w suffix ignore_inputs = (Inr H, w') \<and>
           lockstep H (heap w') \<and>
           set (map fst (G_node H)) =
             set (map (key_after suffix ignore_inputs (heap w)) (G_node (graph w))) \<and>
           list_all (\<lambda>(k, nd).
               case node nd of
                 None \<Rightarrow> False
               | Some a \<Rightarrow> Node.name (heap w' a) =
                            key_after suffix ignore_inputs (heap w) (k, nd))
             (G_node (graph w))"
proof -
  from assms(1) have d: "distinct (map fst (G_node (graph w)))"
    by (simp add: wf_graph_def)
  note c = lockstep_carries_record [OF assms(2)]
  note ns = lockstep_no_shared_record [OF assms(2) d]
  from rename_nodes_result [OF c d, of suffix ignore_inputs] obtain m' h' where
    m': "mapping_get m' = relabel_key w suffix ignore_inputs"
    and r: "rename_nodes w suffix ignore_inputs =
              (Inr (relabel_nodes (graph w) m'), w\<lparr>heap := h'\<rparr>)"
    by blast
  let ?H = "relabel_nodes (graph w) m'"
  have h': "heap (snd (rename_nodes w suffix ignore_inputs)) = h'"
    by (simp add: r)
  have name: "Node.name (h' a) = key_after suffix ignore_inputs (heap w) (k, nd)"
    if "(k, nd) \<in> set (G_node (graph w))" "node nd = Some a" for k nd a
  proof -
    from assms(2) that have "Node.name (heap w a) = k"
      by (auto simp: lockstep_def list_all_iff)
    with rename_nodes_names [OF c ns that, of suffix ignore_inputs] show ?thesis
      by (simp add: h' key_after_def)
  qed
  have 1: "lockstep ?H h'"
    unfolding lockstep_def list_all_iff
  proof
    fix x
    assume "x \<in> set (G_node ?H)"
    with relabel_nodes_entries(1) [OF assms(1), of m'] obtain k nd where
      kn: "(k, nd) \<in> set (G_node (graph w))" and x: "x = (mapping_get m' k, nd)"
      by auto
    from c kn obtain a where a: "node nd = Some a"
      by (auto simp: carries_record_def list_all_iff)
    from name [OF kn a] relabel_key_node [OF d kn, of suffix ignore_inputs]
    show "case x of (k, nd) \<Rightarrow> case node nd of None \<Rightarrow> False | Some a \<Rightarrow> Node.name (h' a) = k"
      by (simp add: x a m')
  qed
  have 2: "set (map fst (G_node ?H)) =
      set (map (key_after suffix ignore_inputs (heap w)) (G_node (graph w)))"
    unfolding relabel_nodes_entries(2) [OF assms(1)] m'
      relabel_keys(2) [OF d, symmetric]
    by (force simp: image_iff)
  have 3: "list_all (\<lambda>(k, nd).
               case node nd of
                 None \<Rightarrow> False
               | Some a \<Rightarrow> Node.name (h' a) = key_after suffix ignore_inputs (heap w) (k, nd))
             (G_node (graph w))"
    unfolding list_all_iff
  proof
    fix x
    assume x: "x \<in> set (G_node (graph w))"
    obtain k nd where kn: "x = (k, nd)" by (cases x)
    from c x kn obtain a where a: "node nd = Some a"
      by (auto simp: carries_record_def list_all_iff)
    from name [OF x [unfolded kn] a]
    show "case x of (k, nd) \<Rightarrow>
               case node nd of
                 None \<Rightarrow> False
               | Some a \<Rightarrow> Node.name (h' a) = key_after suffix ignore_inputs (heap w) (k, nd)"
      by (simp add: kn a)
  qed
  define w' where "w' = w\<lparr>heap := h'\<rparr>"
  have hw: "h' = heap w'"
    by (simp add: w'_def)
  from r have "rename_nodes w suffix ignore_inputs = (Inr ?H, w')"
    by (simp add: w'_def)
  with 1 2 3 show ?thesis
    unfolding hw by blast
qed

theorem rename_nodes_lockstep_witness:
  "wf_graph (graph netlist_world) \<and> lockstep (graph netlist_world) (heap netlist_world) \<and>
   lockstep (projr (fst (rename_nodes netlist_world ''_s'' True)))
     (heap (snd (rename_nodes netlist_world ''_s'' True))) \<and>
   wf_graph (graph collision_world) \<and> lockstep (graph collision_world) (heap collision_world) \<and>
   lockstep (projr (fst (rename_nodes collision_world ''_s'' True)))
     (heap (snd (rename_nodes collision_world ''_s'' True)))"
proof -
  have a: "wf_graph (graph netlist_world)" "lockstep (graph netlist_world) (heap netlist_world)"
    "wf_graph (graph collision_world)" "lockstep (graph collision_world) (heap collision_world)"
    by (simp_all add: wf_graph_def lockstep_def netlist_world_def collision_world_def nd_of_def
          mk_node_def)
  from rename_nodes_lockstep [OF a(1,2), of "''_s''" True]
  have 1: "lockstep (projr (fst (rename_nodes netlist_world ''_s'' True)))
     (heap (snd (rename_nodes netlist_world ''_s'' True)))"
    by auto
  from rename_nodes_lockstep [OF a(3,4), of "''_s''" True]
  have 2: "lockstep (projr (fst (rename_nodes collision_world ''_s'' True)))
     (heap (snd (rename_nodes collision_world ''_s'' True)))"
    by auto
  from a 1 2 show ?thesis by simp
qed

subsubsection \<open>The edges of the relabelled graph\<close>









end
